theory Spec2Isabelle
  imports Complex_Main "HOL-Library.Word" "HOL-Library.AList" "HOL-Library.Product_Lexorder"
begin

unbundle bit_operations_syntax

section \<open>Data model\<close>

text \<open>
  An altitude as \<open>Airspace.getMin()\<close> and \<open>Airspace.getMax()\<close> return it: the pair
  (feet, is-AGL), which \<open>printAirspaces\<close> reads as \<open>floor[0]\<close> and \<open>floor[1]\<close>. Python
  compares such tuples lexicographically, with \<open>False < True\<close>; this is the order of
  \<open>HOL-Library.Product_Lexorder\<close>.
\<close>

type_synonym height = "int \<times> bool"

text \<open>
  The classes \<open>Airspace\<close> and \<open>AirspaceVector\<close> are imported by \<open>convert.py\<close>; only the
  attributes that \<open>convert.py\<close> reads are fields here. An object carries its identity
  (\<open>aref\<close>, \<open>vref\<close>), so that equality of records is Python's comparison of objects:
  two objects with different identities are different records.
\<close>

record Airspace =
  aref :: nat
  name :: string
  getMin :: height
  getMax :: height

record AirspaceVector =
  vref :: nat
  airspace :: Airspace
  distance :: real
  angle :: real
  inside :: bool

text \<open>\<open>levels\<close>: each point has this many elevation levels; \<open>sizeof_level\<close>: the size
  of one level in bytes in the file.\<close>

definition levels :: nat where
  "levels = 5"

definition sizeof_level :: nat where
  "sizeof_level = 4"

text \<open>A Python \<open>dict\<close> from heights to vectors, in insertion order: \<open>d[h] = v\<close> is
  \<open>AList.update h v d\<close>, which replaces the value of a present key in place and appends
  a new key at the end.\<close>

type_synonym airspace_dict = "(height \<times> AirspaceVector) list"

section \<open>The selection helpers\<close>

definition findAirspacesInHeight :: "AirspaceVector list \<Rightarrow> height \<Rightarrow> AirspaceVector list" where
  "findAirspacesInHeight airspaceVectors height =
     filter (\<lambda>airspaceVector. height \<ge> getMin (airspace airspaceVector)
                              \<and> height < getMax (airspace airspaceVector)) airspaceVectors"

definition findAirspacesInside :: "AirspaceVector list \<Rightarrow> AirspaceVector list" where
  "findAirspacesInside airspaceVectors = filter (\<lambda>airspaceVector. inside airspaceVector) airspaceVectors"

definition findAirspacesNotInside :: "AirspaceVector list \<Rightarrow> AirspaceVector list" where
  "findAirspacesNotInside airspaceVectors =
     filter (\<lambda>airspaceVector. \<not> inside airspaceVector) airspaceVectors"

definition findLowestHeightInAirspaces :: "AirspaceVector list \<Rightarrow> height option" where
  "findLowestHeightInAirspaces airspace_vectors =
     foldl (\<lambda>minHeight airspace_vector.
              case minHeight of
                None \<Rightarrow> Some (getMin (airspace airspace_vector))
              | Some m \<Rightarrow> if getMin (airspace airspace_vector) \<le> m
                          then Some (getMin (airspace airspace_vector)) else minHeight)
           None airspace_vectors"

definition findHighestHeightInAirspaces :: "AirspaceVector list \<Rightarrow> height option" where
  "findHighestHeightInAirspaces airspace_vectors =
     foldl (\<lambda>maxHeight airspace_vector.
              case maxHeight of
                None \<Rightarrow> Some (getMax (airspace airspace_vector))
              | Some m \<Rightarrow> if getMax (airspace airspace_vector) > m
                          then Some (getMax (airspace airspace_vector)) else maxHeight)
           None airspace_vectors"

text \<open>One of the two identical updates in the body of \<open>findNextHeightInAirspaces\<close>.\<close>

definition nextHeightUpdate :: "height \<Rightarrow> height option \<Rightarrow> height \<Rightarrow> height option" where
  "nextHeightUpdate h nextHeight newHeight =
     (if newHeight > h
      then (case nextHeight of None \<Rightarrow> Some newHeight | Some n \<Rightarrow> Some (min n newHeight))
      else nextHeight)"

definition findNextHeightInAirspaces :: "AirspaceVector list \<Rightarrow> height \<Rightarrow> height option" where
  "findNextHeightInAirspaces airspace_vectors h =
     foldl (\<lambda>nextHeight airspace_vector.
              nextHeightUpdate h
                (nextHeightUpdate h nextHeight (getMin (airspace airspace_vector)))
                (getMax (airspace airspace_vector)))
           None airspace_vectors"

definition findNearestAirspace :: "AirspaceVector list \<Rightarrow> AirspaceVector option" where
  "findNearestAirspace airspaceVectors =
     foldl (\<lambda>nearestAirspace airspaceVector.
              case nearestAirspace of
                None \<Rightarrow> Some airspaceVector
              | Some n \<Rightarrow> if distance airspaceVector < distance n
                          then Some airspaceVector else nearestAirspace)
           None airspaceVectors"

definition findFarestAirspace :: "AirspaceVector list \<Rightarrow> AirspaceVector option" where
  "findFarestAirspace airspaceVectors =
     foldl (\<lambda>farestAirspace airspaceVector.
              case farestAirspace of
                None \<Rightarrow> Some airspaceVector
              | Some f \<Rightarrow> if distance airspaceVector > distance f
                          then Some airspaceVector else farestAirspace)
           None airspaceVectors"

section \<open>The height sweep\<close>

text \<open>The floors and ceilings of all candidate vectors.\<close>

definition breakpoints :: "AirspaceVector list \<Rightarrow> height set" where
  "breakpoints avs =
     (\<lambda>v. getMin (airspace v)) ` set avs \<union> (\<lambda>v. getMax (airspace v)) ` set avs"

definition minOpt :: "height set \<Rightarrow> height option" where
  "minOpt B = (if B = {} then None else Some (Min B))"

lemma nextHeightUpdate_minOpt:
  "finite B \<Longrightarrow> nextHeightUpdate h (minOpt B) x = minOpt (if h < x then insert x B else B)"
  by (simp add: nextHeightUpdate_def minOpt_def min.commute)

lemma findNext_foldl:
  "finite B \<Longrightarrow>
   foldl (\<lambda>nextHeight airspace_vector.
              nextHeightUpdate h
                (nextHeightUpdate h nextHeight (getMin (airspace airspace_vector)))
                (getMax (airspace airspace_vector))) (minOpt B) avs
   = minOpt (B \<union> {b \<in> breakpoints avs. h < b})"
proof (induction avs arbitrary: B)
  case Nil
  then show ?case by (simp add: breakpoints_def)
next
  case (Cons v avs)
  let ?B1 = "if h < getMin (airspace v) then insert (getMin (airspace v)) B else B"
  let ?B2 = "if h < getMax (airspace v) then insert (getMax (airspace v)) ?B1 else ?B1"
  have f1: "finite ?B1" using Cons.prems by simp
  have f2: "finite ?B2" using Cons.prems by simp
  have "nextHeightUpdate h (nextHeightUpdate h (minOpt B) (getMin (airspace v))) (getMax (airspace v)) = minOpt ?B2"
    using Cons.prems f1 by (simp only: nextHeightUpdate_minOpt)
  moreover have "?B2 \<union> {b \<in> breakpoints avs. h < b} = B \<union> {b \<in> breakpoints (v # avs). h < b}"
    by (auto simp: breakpoints_def)
  ultimately show ?case using Cons.IH [OF f2] by simp
qed

lemma findNextHeightInAirspaces_eq:
  "findNextHeightInAirspaces avs h = minOpt {b \<in> breakpoints avs. h < b}"
  using findNext_foldl [of "{}" h avs] by (simp add: findNextHeightInAirspaces_def minOpt_def)

lemma finite_breakpoints: "finite (breakpoints avs)"
  by (simp add: breakpoints_def)

text \<open>
  The choice of the vector of one band, lines 212 to 224 of \<open>dumpPoint\<close>: the nearest of
  the vectors inside, if there is one, else the nearest of all vectors of the band.
\<close>

definition nearestAirspaceInHeight :: "AirspaceVector list \<Rightarrow> height \<Rightarrow> AirspaceVector option" where
  "nearestAirspaceInHeight avs h =
     (let airspacesInThisHeight = findAirspacesInHeight avs h;
          airspacesInside = findAirspacesInside airspacesInThisHeight
      in if length airspacesInside \<noteq> 0
         then findNearestAirspace airspacesInside
         else findNearestAirspace airspacesInThisHeight)"

text \<open>
  The loop \<open>while h != None and h < hMax\<close> of \<open>dumpPoint\<close>, with the dictionary
  \<open>sortedAirspaces\<close> as accumulator. The number of breakpoints above \<open>h\<close> decreases.
\<close>

function sweep :: "AirspaceVector list \<Rightarrow> height \<Rightarrow> height option \<Rightarrow> airspace_dict \<Rightarrow> airspace_dict" where
  "sweep avs hMax None sortedAirspaces = sortedAirspaces"
| "sweep avs hMax (Some h) sortedAirspaces =
     (if h < hMax
      then sweep avs hMax (findNextHeightInAirspaces avs h)
             (case nearestAirspaceInHeight avs h of
                None \<Rightarrow> sortedAirspaces
              | Some nearestAirspace \<Rightarrow> AList.update h nearestAirspace sortedAirspaces)
      else sortedAirspaces)"
  by pat_completeness auto
termination
proof (relation "measure (\<lambda>(avs, hMax, h, d). case h of None \<Rightarrow> 0 | Some x \<Rightarrow> Suc (card {b \<in> breakpoints avs. x < b}))")
  show "wf (measure (\<lambda>(avs, hMax, h, d). case h of None \<Rightarrow> 0 | Some x \<Rightarrow> Suc (card {b \<in> breakpoints avs. x < b})))"
    by simp
next
  fix avs :: "AirspaceVector list" and hMax h :: height and sortedAirspaces :: airspace_dict
  assume "h < hMax"
  let ?B = "{b \<in> breakpoints avs. h < b}"
  show "((avs, hMax, findNextHeightInAirspaces avs h,
          case nearestAirspaceInHeight avs h of None \<Rightarrow> sortedAirspaces
          | Some nearestAirspace \<Rightarrow> AList.update h nearestAirspace sortedAirspaces),
         (avs, hMax, Some h, sortedAirspaces))
        \<in> measure (\<lambda>(avs, hMax, h, d). case h of None \<Rightarrow> 0 | Some x \<Rightarrow> Suc (card {b \<in> breakpoints avs. x < b}))"
  proof (cases "?B = {}")
    case True
    then show ?thesis by (simp add: findNextHeightInAirspaces_eq minOpt_def)
  next
    case False
    have fin: "finite ?B" using finite_breakpoints by simp
    then have m: "Min ?B \<in> ?B" using False by (rule Min_in)
    have "{b \<in> breakpoints avs. Min ?B < b} \<subset> ?B"
      using m by auto
    then have "card {b \<in> breakpoints avs. Min ?B < b} < card ?B"
      using fin by (rule psubset_card_mono[rotated])
    then show ?thesis using False by (simp add: findNextHeightInAirspaces_eq minOpt_def)
  qed
qed

text \<open>
  The whole sweep, from \<open>hMin\<close>. Both heights are \<open>None\<close> exactly for the empty list
  (lemma \<open>lowest_highest_None\<close>), so the second \<open>None\<close> branch is never taken.
\<close>

declare sweep.simps [simp del]

definition heightBands :: "AirspaceVector list \<Rightarrow> airspace_dict" where
  "heightBands avs =
     (case findLowestHeightInAirspaces avs of
        None \<Rightarrow> []
      | Some hMin \<Rightarrow>
          (case findHighestHeightInAirspaces avs of
             None \<Rightarrow> []
           | Some hMax \<Rightarrow> sweep avs hMax (Some hMin) []))"


section \<open>The level codec\<close>

type_synonym byte = "8 word"

text \<open>A point as \<open>shapely.geometry.Point(lon, lat)\<close>: the pair (x, y).\<close>

type_synonym point = "real \<times> real"

text \<open>
  \<open>TooMuchAirspaces p\<close> is the exit of \<open>dumpPoint\<close> after printing "Too much airspaces
  and none is far away at" and the point; \<open>IndexError\<close> is a write behind the end of
  the output buffer; \<open>AttributeError\<close> is a call of a method on \<open>None\<close>;
  \<open>ZeroDivisionError\<close> is a division by zero.
\<close>

datatype error = TooMuchAirspaces point | IndexError | AttributeError | ZeroDivisionError

definition clamp :: "int \<Rightarrow> int \<Rightarrow> int \<Rightarrow> int" where
  "clamp x lo hi = max lo (min hi x)"

text \<open>
  Modelled from the spec: the encoding of a floor or a ceiling in one byte, which the
  class \<open>AirspaceVector\<close> (not in \<open>convert.py\<close>) computes inside \<open>getBytes\<close>. Spec 4.1:
  \<open>raw = round(floor_ft / 250)\<close>, clamped to [0, 127]; if the reference is AGL, add 128.
\<close>

definition altitudeByte :: "height \<Rightarrow> int" where
  "altitudeByte h = clamp (round (real_of_int (fst h) / 250)) 0 127 + (if snd h then 128 else 0)"

text \<open>
  Modelled from the spec: \<open>AirspaceVector.getDistanceAsByte\<close>, a method of the class
  \<open>AirspaceVector\<close>, which is not in \<open>convert.py\<close>. Spec 4.1, byte 3:
  \<open>raw = clamp(round(distance / 64), 0, 255)\<close>.
\<close>

definition getDistanceAsByte :: "AirspaceVector \<Rightarrow> int" where
  "getDistanceAsByte v = clamp (round (distance v / 64)) 0 255"

text \<open>
  Modelled from the spec: \<open>AirspaceVector.getAngleAsByte\<close>, a method of the class
  \<open>AirspaceVector\<close>, which is not in \<open>convert.py\<close>. Spec 4.1, byte 2:
  \<open>raw = round(bearing_deg / 3)\<close>, before the inside flag is added.
\<close>

definition getAngleAsByte :: "AirspaceVector \<Rightarrow> int" where
  "getAngleAsByte v = round (angle v / 3)"

text \<open>
  Modelled from the spec: \<open>AirspaceVector.getBytes\<close>, a method of the class
  \<open>AirspaceVector\<close>, which is not in \<open>convert.py\<close>. Spec 4.1 and 6: the four bytes
  [floor, ceiling, bearing with the inside flag as bit 7, distance].
\<close>

definition getBytes :: "AirspaceVector \<Rightarrow> byte list" where
  "getBytes v = map word_of_int
     [altitudeByte (getMin (airspace v)), altitudeByte (getMax (airspace v)),
      getAngleAsByte v + (if inside v then 128 else 0), getDistanceAsByte v]"

text \<open>
  Modelled from the spec: \<open>AirspaceVector().getBytes()\<close>, the bytes of a vector without
  airspace, which the class \<open>AirspaceVector\<close> (not in \<open>convert.py\<close>) computes. Spec 3
  and 4.1: the empty descriptor is four zero bytes.
\<close>

definition emptyBytes :: "byte list" where
  "emptyBytes = [0, 0, 0, 0]"

section \<open>The three compaction passes\<close>

text \<open>
  The entries of a dictionary by ascending height: \<open>heights = sorted(d.keys())\<close>, each
  height read back as \<open>d[height]\<close>.
\<close>

definition sortedItems :: "airspace_dict \<Rightarrow> (height \<times> AirspaceVector) list" where
  "sortedItems d = sort_key fst d"

text \<open>
  "Eliminate all subsequent identical airspaces": the loop over \<open>i\<close> compares the entries
  at \<open>heights[i]\<close> and \<open>heights[i+1]\<close>, here the first two entries of the list.
\<close>

fun eliminateIdentical_loop ::
  "(height \<times> AirspaceVector) list \<Rightarrow> airspace_dict \<Rightarrow> airspace_dict" where
  "eliminateIdentical_loop (e1 # e2 # es) compactAirspaces =
     eliminateIdentical_loop (e2 # es)
       (if airspace (snd e1) \<noteq> airspace (snd e2)
        then AList.update (fst e2) (snd e2) compactAirspaces
        else compactAirspaces)"
| "eliminateIdentical_loop es compactAirspaces = compactAirspaces"

definition eliminateIdentical :: "airspace_dict \<Rightarrow> airspace_dict" where
  "eliminateIdentical sortedAirspaces =
     (case sortedItems sortedAirspaces of
        [] \<Rightarrow> []
      | e # es \<Rightarrow> eliminateIdentical_loop (e # es) (AList.update (fst e) (snd e) []))"

text \<open>
  "Eliminate all subsequent airspaces with same angle/distance", only when there are
  more than \<open>levels\<close> heights; otherwise the dictionary stays as it is.
\<close>

fun eliminateSameVector_loop ::
  "(height \<times> AirspaceVector) list \<Rightarrow> airspace_dict \<Rightarrow> airspace_dict" where
  "eliminateSameVector_loop (e1 # e2 # es) compactAirspaces =
     eliminateSameVector_loop (e2 # es)
       (if getDistanceAsByte (snd e1) \<noteq> getDistanceAsByte (snd e2)
           \<or> \<bar>getAngleAsByte (snd e1) - getAngleAsByte (snd e2)\<bar> > 5
        then AList.update (fst e2) (snd e2) compactAirspaces
        else compactAirspaces)"
| "eliminateSameVector_loop es compactAirspaces = compactAirspaces"

definition eliminateSameVector :: "airspace_dict \<Rightarrow> airspace_dict" where
  "eliminateSameVector sortedAirspaces =
     (case sortedItems sortedAirspaces of
        [] \<Rightarrow> sortedAirspaces
      | e # es \<Rightarrow>
          if length (e # es) > levels
          then eliminateSameVector_loop (e # es) (AList.update (fst e) (snd e) [])
          else sortedAirspaces)"

lemma findFarest_foldl_mem:
  "foldl (\<lambda>farestAirspace airspaceVector.
              case farestAirspace of
                None \<Rightarrow> Some airspaceVector
              | Some f \<Rightarrow> if distance airspaceVector > distance f
                          then Some airspaceVector else farestAirspace) acc vs = Some x
   \<Longrightarrow> x \<in> set vs \<or> acc = Some x"
  by (induction vs arbitrary: acc) (auto split: option.splits if_splits)

lemma findFarestAirspace_mem: "findFarestAirspace vs = Some x \<Longrightarrow> x \<in> set vs"
  using findFarest_foldl_mem [of None vs x] by (simp add: findFarestAirspace_def)

text \<open>
  "Delete all airspaces which are far away": the loop \<open>while len(compactAirspaces) > levels\<close>
  is \<open>deleteFarAway\<close>, its body is \<open>deleteFarest\<close>, which is \<open>None\<close> when
  \<open>farestAirspace == None\<close>. The new dictionary \<open>compactAirspaces2\<close> takes the entries
  whose vector is not \<open>farestAirspace\<close>, in the order of the old one.
\<close>

definition deleteFarest :: "airspace_dict \<Rightarrow> airspace_dict option" where
  "deleteFarest compactAirspaces =
     (case findFarestAirspace (findAirspacesNotInside (map snd compactAirspaces)) of
        None \<Rightarrow> None
      | Some farestAirspace \<Rightarrow>
          Some (filter (\<lambda>(height, v). v \<noteq> farestAirspace) compactAirspaces))"

lemma deleteFarest_shorter:
  assumes "deleteFarest compactAirspaces = Some compactAirspaces2"
  shows "length compactAirspaces2 < length compactAirspaces"
proof -
  from assms obtain far
    where far: "findFarestAirspace (findAirspacesNotInside (map snd compactAirspaces)) = Some far"
      and c2: "compactAirspaces2 = filter (\<lambda>(height, v). v \<noteq> far) compactAirspaces"
    by (auto simp: deleteFarest_def split: option.splits)
  from far have "far \<in> snd ` set compactAirspaces"
    by (auto dest!: findFarestAirspace_mem simp: findAirspacesNotInside_def)
  then obtain e where "e \<in> set compactAirspaces" "\<not> (case e of (height, v) \<Rightarrow> v \<noteq> far)"
    by auto
  then have "length (filter (\<lambda>(height, v). v \<noteq> far) compactAirspaces) < length compactAirspaces"
    by (metis (mono_tags, lifting) length_filter_less)
  with c2 show ?thesis by simp
qed

function deleteFarAway :: "point \<Rightarrow> airspace_dict \<Rightarrow> error + airspace_dict" where
  "deleteFarAway p compactAirspaces =
     (if length compactAirspaces > levels
      then (case deleteFarest compactAirspaces of
              None \<Rightarrow> Inl (TooMuchAirspaces p)
            | Some compactAirspaces2 \<Rightarrow> deleteFarAway p compactAirspaces2)
      else Inr compactAirspaces)"
  by pat_completeness auto
termination
  by (relation "measure (\<lambda>(p, d). length d)") (auto dest: deleteFarest_shorter)

declare deleteFarAway.simps [simp del]

section \<open>Writing the record of a point\<close>

text \<open>The loop \<open>for byte in ...getBytes(): output[offset] = byte; offset = offset + 1\<close>.\<close>

fun writeBytes :: "byte list \<Rightarrow> nat \<Rightarrow> byte list \<Rightarrow> error + (byte list \<times> nat)" where
  "writeBytes output offset [] = Inr (output, offset)"
| "writeBytes output offset (byte # bytes) =
     (if offset < length output
      then writeBytes (output[offset := byte]) (offset + 1) bytes
      else Inl IndexError)"

fun writeLevels :: "byte list \<Rightarrow> nat \<Rightarrow> byte list list \<Rightarrow> error + (byte list \<times> nat)" where
  "writeLevels output offset [] = Inr (output, offset)"
| "writeLevels output offset (bytes # rest) =
     (case writeBytes output offset bytes of
        Inl e \<Rightarrow> Inl e
      | Inr (output', offset') \<Rightarrow> writeLevels output' offset' rest)"

text \<open>
  \<open>dumpPoint\<close> from the list \<open>avs\<close> on: the sweep, the three passes, the bytes of the
  surviving entries by ascending height, then the empty levels.
\<close>

definition dumpVectors :: "byte list \<Rightarrow> nat \<Rightarrow> point \<Rightarrow> AirspaceVector list \<Rightarrow> error + byte list" where
  "dumpVectors output offset p avs =
     (case deleteFarAway p (eliminateSameVector (eliminateIdentical (heightBands avs))) of
        Inl e \<Rightarrow> Inl e
      | Inr compactAirspaces \<Rightarrow>
          (case writeLevels output offset (map (\<lambda>(height1, v). getBytes v) (sortedItems compactAirspaces)) of
             Inl e \<Rightarrow> Inl e
           | Inr (output', offset') \<Rightarrow>
               (case writeLevels output' offset'
                       (replicate (levels - length compactAirspaces) emptyBytes) of
                  Inl e \<Rightarrow> Inl e
                | Inr (output'', offset'') \<Rightarrow> Inr output'')))"

section \<open>Example inputs\<close>

text \<open>An airspace and its vector at some point, with MSL floor and ceiling.\<close>

definition exampleAirspace :: "nat \<Rightarrow> int \<Rightarrow> int \<Rightarrow> Airspace" where
  "exampleAirspace i lo hi = \<lparr> aref = i, name = ''A'', getMin = (lo, False), getMax = (hi, False) \<rparr>"

definition exampleVector :: "nat \<Rightarrow> int \<Rightarrow> int \<Rightarrow> real \<Rightarrow> real \<Rightarrow> bool \<Rightarrow> AirspaceVector" where
  "exampleVector i lo hi d a ins =
     \<lparr> vref = i, airspace = exampleAirspace i lo hi, distance = d, angle = a, inside = ins \<rparr>"

section \<open>The choice of a band's vector, as the specification words it\<close>

text \<open>The band of the vector's airspace contains \<open>h\<close>: floor \<open>\<le> h <\<close> ceiling.\<close>

definition covers :: "AirspaceVector \<Rightarrow> height \<Rightarrow> bool" where
  "covers v h = (getMin (airspace v) \<le> h \<and> h < getMax (airspace v))"

text \<open>
  The first vector of the input list, in input order, that satisfies \<open>C\<close> and is at most
  as far as every vector satisfying \<open>C\<close>.
\<close>

definition firstNearestOf :: "(AirspaceVector \<Rightarrow> bool) \<Rightarrow> AirspaceVector list \<Rightarrow> AirspaceVector option" where
  "firstNearestOf C avs =
     find (\<lambda>v. C v \<and> (\<forall>w \<in> set avs. C w \<longrightarrow> distance v \<le> distance w)) avs"

text \<open>
  The inside vector of minimum distance if a covering vector is inside, otherwise the
  covering vector of minimum distance; ties go to the first in input order.
\<close>

definition chosenVector_spec :: "AirspaceVector list \<Rightarrow> height \<Rightarrow> AirspaceVector option" where
  "chosenVector_spec avs h =
     (if \<exists>v \<in> set avs. covers v h \<and> inside v
      then firstNearestOf (\<lambda>v. covers v h \<and> inside v) avs
      else firstNearestOf (\<lambda>v. covers v h) avs)"

section \<open>Properties of the sweep\<close>

lemma find_append:
  "find P (xs @ ys) = (case find P xs of None \<Rightarrow> find P ys | Some x \<Rightarrow> Some x)"
  by (induction xs) auto

lemma findNearestAirspace_snoc:
  "findNearestAirspace (xs @ [x]) =
     (case findNearestAirspace xs of None \<Rightarrow> Some x
      | Some n \<Rightarrow> if distance x < distance n then Some x else Some n)"
  by (simp add: findNearestAirspace_def split: option.splits)

lemma findNearestAirspace_None: "(findNearestAirspace xs = None) = (xs = [])"
  by (induction xs rule: rev_induct)
     (simp_all add: findNearestAirspace_snoc split: option.splits, simp add: findNearestAirspace_def)

lemma findNearestAirspace_find:
  "findNearestAirspace xs = find (\<lambda>v. \<forall>w \<in> set xs. distance v \<le> distance w) xs"
proof (induction xs rule: rev_induct)
  case Nil
  show ?case by (simp add: findNearestAirspace_def)
next
  case (snoc x xs)
  show ?case
  proof (cases "findNearestAirspace xs")
    case None
    then have "xs = []" by (simp add: findNearestAirspace_None)
    then show ?thesis
      by (simp add: findNearestAirspace_def)
  next
    case (Some n)
    with snoc have f: "find (\<lambda>v. \<forall>w \<in> set xs. distance v \<le> distance w) xs = Some n" by simp
    then have n: "n \<in> set xs" "\<forall>w \<in> set xs. distance n \<le> distance w"
      by (auto simp: find_Some_iff)
    show ?thesis
    proof (cases "distance x < distance n")
      case True
      with n have "\<forall>v \<in> set xs. \<not> (\<forall>w \<in> set (xs @ [x]). distance v \<le> distance w)"
        by fastforce
      then have "find (\<lambda>v. \<forall>w \<in> set (xs @ [x]). distance v \<le> distance w) xs = None"
        by (simp add: find_None_iff)
      moreover have "\<forall>w \<in> set (xs @ [x]). distance x \<le> distance w"
        using True n by fastforce
      ultimately show ?thesis using Some True
        by (simp add: findNearestAirspace_snoc find_append)
    next
      case False
      have "find (\<lambda>v. \<forall>w \<in> set (xs @ [x]). distance v \<le> distance w) xs
            = find (\<lambda>v. \<forall>w \<in> set xs. distance v \<le> distance w) xs"
      proof (rule find_cong [OF refl])
        fix v assume "v \<in> set xs"
        with n False show "(\<forall>w \<in> set (xs @ [x]). distance v \<le> distance w)
                            = (\<forall>w \<in> set xs. distance v \<le> distance w)"
          by fastforce
      qed
      with f Some False show ?thesis
        by (simp add: findNearestAirspace_snoc find_append)
    qed
  qed
qed

lemma find_filter: "find P (filter Q xs) = find (\<lambda>x. Q x \<and> P x) xs"
  by (induction xs) auto

lemma findNearest_filter:
  "findNearestAirspace (filter C avs) = firstNearestOf C avs"
proof -
  have eq: "\<And>v. (\<forall>w \<in> set (filter C avs). distance v \<le> distance w)
             = (\<forall>w \<in> set avs. C w \<longrightarrow> distance v \<le> distance w)"
    by auto
  show ?thesis
    by (simp only: findNearestAirspace_find find_filter firstNearestOf_def eq)
qed

lemma nearestAirspaceInHeight_spec: "nearestAirspaceInHeight avs h = chosenVector_spec avs h"
proof -
  have a: "findAirspacesInHeight avs h = filter (\<lambda>v. covers v h) avs"
    by (simp add: findAirspacesInHeight_def covers_def)
  have b: "findAirspacesInside (findAirspacesInHeight avs h) = filter (\<lambda>v. covers v h \<and> inside v) avs"
    by (simp add: a findAirspacesInside_def conj_commute)
  have c: "(length (filter (\<lambda>v. covers v h \<and> inside v) avs) \<noteq> 0) = (\<exists>v \<in> set avs. covers v h \<and> inside v)"
    by (auto simp: filter_empty_conv)
  show ?thesis
    by (simp only: nearestAirspaceInHeight_def Let_def b c chosenVector_spec_def findNearest_filter)
       (simp only: a findNearest_filter)
qed

lemma update_entries: "e \<in> set (AList.update k v al) \<Longrightarrow> e = (k, v) \<or> e \<in> set al"
  by (induction al) (auto split: if_splits)

lemma sweep_entries:
  "e \<in> set (sweep avs hMax h d) \<Longrightarrow> e \<in> set d \<or> nearestAirspaceInHeight avs (fst e) = Some (snd e)"
proof (induction avs hMax h d rule: sweep.induct)
  case (1 avs hMax sortedAirspaces)
  then show ?case by (simp add: sweep.simps)
next
  case (2 avs hMax h sortedAirspaces)
  show ?case
  proof (cases "h < hMax")
    case False
    with 2 show ?thesis by (simp add: sweep.simps)
  next
    case True
    with 2 show ?thesis
      by (auto simp: sweep.simps split: option.splits dest: update_entries)
  qed
qed

lemma heightBands_entries:
  "(h, v) \<in> set (heightBands avs) \<Longrightarrow> nearestAirspaceInHeight avs h = Some v"
  by (auto simp: heightBands_def split: option.splits dest: sweep_entries)


text \<open>
  Claim C3. For every height, and so for every swept band, the vector that the code
  chooses is the one the specification describes: the minimum-distance inside vector
  among the covering vectors if one of them is inside, otherwise the minimum-distance
  covering vector, the first in input order among equals. Every entry of the height-band
  map is that choice at its height.
\<close>

theorem band_choice_is_first_nearest:
  "nearestAirspaceInHeight avs h = chosenVector_spec avs h
   \<and> (\<forall>e \<in> set (heightBands avs). chosenVector_spec avs (fst e) = Some (snd e))"
proof
  show "nearestAirspaceInHeight avs h = chosenVector_spec avs h"
    by (rule nearestAirspaceInHeight_spec)
  show "\<forall>e \<in> set (heightBands avs). chosenVector_spec avs (fst e) = Some (snd e)"
  proof
    fix e assume "e \<in> set (heightBands avs)"
    then have "nearestAirspaceInHeight avs (fst e) = Some (snd e)"
      using heightBands_entries [of "fst e" "snd e" avs] by simp
    then show "chosenVector_spec avs (fst e) = Some (snd e)"
      by (simp add: nearestAirspaceInHeight_spec)
  qed
qed

theorem band_choice_is_first_nearest_witness:
  "nearestAirspaceInHeight
     [exampleVector 0 0 1000 1 0 False, exampleVector 1 0 1000 5 0 True,
      exampleVector 2 0 1000 5 0 True] (0, False)
   = Some (exampleVector 1 0 1000 5 0 True)"
  using band_choice_is_first_nearest
    [of "[exampleVector 0 0 1000 1 0 False, exampleVector 1 0 1000 5 0 True,
          exampleVector 2 0 1000 5 0 True]" "(0, False)"]
  by (simp add: chosenVector_spec_def firstNearestOf_def covers_def exampleVector_def
        exampleAirspace_def)

lemma foldl_Some_min:
  fixes g :: "'a \<Rightarrow> 'b::linorder"
  shows "foldl (\<lambda>acc v. case acc of None \<Rightarrow> Some (g v)
                  | Some m \<Rightarrow> if g v \<le> m then Some (g v) else acc) (Some a) xs
         = Some (Min (insert a (g ` set xs)))"
proof (induction xs arbitrary: a)
  case Nil
  show ?case by simp
next
  case (Cons x xs)
  have fin: "finite (g ` set xs)" by simp
  have mx: "Min (insert a (insert (g x) (g ` set xs))) = Min (insert (min a (g x)) (g ` set xs))"
  proof (cases "set xs = {}")
    case True
    then show ?thesis by (simp add: min.commute)
  next
    case False
    then have ne: "g ` set xs \<noteq> {}" by simp
    show ?thesis
      by (simp only: Min_insert [OF fin ne] Min_insert [OF finite.insertI [OF fin] insert_not_empty] min.assoc)
  qed
  have st: "(if g x \<le> a then Some (g x) else Some a) = Some (min a (g x))"
    by (auto simp: min_def)
  have "foldl (\<lambda>acc v. case acc of None \<Rightarrow> Some (g v)
                  | Some m \<Rightarrow> if g v \<le> m then Some (g v) else acc) (Some a) (x # xs)
        = foldl (\<lambda>acc v. case acc of None \<Rightarrow> Some (g v)
                  | Some m \<Rightarrow> if g v \<le> m then Some (g v) else acc) (Some (min a (g x))) xs"
    by (simp only: foldl_Cons option.case st)
  also have "\<dots> = Some (Min (insert (min a (g x)) (g ` set xs)))"
    by (rule Cons)
  finally show ?case by (simp only: mx list.set image_insert)
qed

lemma findLowestHeightInAirspaces_eq:
  "findLowestHeightInAirspaces avs =
     (if avs = [] then None else Some (Min ((\<lambda>v. getMin (airspace v)) ` set avs)))"
  by (cases avs) (simp_all add: findLowestHeightInAirspaces_def foldl_Some_min)

lemma foldl_Some_max:
  fixes g :: "'a \<Rightarrow> 'b::linorder"
  shows "foldl (\<lambda>acc v. case acc of None \<Rightarrow> Some (g v)
                  | Some m \<Rightarrow> if g v > m then Some (g v) else acc) (Some a) xs
         = Some (Max (insert a (g ` set xs)))"
proof (induction xs arbitrary: a)
  case Nil
  show ?case by simp
next
  case (Cons x xs)
  have fin: "finite (g ` set xs)" by simp
  have mx: "Max (insert a (insert (g x) (g ` set xs))) = Max (insert (max a (g x)) (g ` set xs))"
  proof (cases "set xs = {}")
    case True
    then show ?thesis by (simp add: max.commute)
  next
    case False
    then have ne: "g ` set xs \<noteq> {}" by simp
    show ?thesis
      by (simp only: Max_insert [OF fin ne] Max_insert [OF finite.insertI [OF fin] insert_not_empty] max.assoc)
  qed
  have st: "(if a < g x then Some (g x) else Some a) = Some (max a (g x))"
    by (simp add: max_def not_less less_imp_le)
  have "foldl (\<lambda>acc v. case acc of None \<Rightarrow> Some (g v)
                  | Some m \<Rightarrow> if g v > m then Some (g v) else acc) (Some a) (x # xs)
        = foldl (\<lambda>acc v. case acc of None \<Rightarrow> Some (g v)
                  | Some m \<Rightarrow> if g v > m then Some (g v) else acc) (Some (max a (g x))) xs"
    by (simp only: foldl_Cons option.case st)
  also have "\<dots> = Some (Max (insert (max a (g x)) (g ` set xs)))"
    by (rule Cons)
  finally show ?case by (simp only: mx list.set image_insert)
qed

lemma findHighestHeightInAirspaces_eq:
  "findHighestHeightInAirspaces avs =
     (if avs = [] then None else Some (Max ((\<lambda>v. getMax (airspace v)) ` set avs)))"
  by (cases avs) (simp_all add: findHighestHeightInAirspaces_def foldl_Some_max)

lemma lowest_highest_None:
  "(findLowestHeightInAirspaces avs = None) = (avs = [])"
  "(findHighestHeightInAirspaces avs = None) = (avs = [])"
  by (simp_all add: findLowestHeightInAirspaces_eq findHighestHeightInAirspaces_eq)

lemma nearestAirspaceInHeight_None:
  "(nearestAirspaceInHeight avs h = None) = (\<not> (\<exists>v \<in> set avs. covers v h))"
  by (auto simp: nearestAirspaceInHeight_def Let_def findNearestAirspace_None
        findAirspacesInside_def findAirspacesInHeight_def covers_def filter_empty_conv)


text \<open>The heights that the loop visits from \<open>h\<close> on, for the proofs.\<close>

definition visited :: "AirspaceVector list \<Rightarrow> height \<Rightarrow> height option \<Rightarrow> height set" where
  "visited avs hMax ho =
     (case ho of None \<Rightarrow> {}
      | Some h \<Rightarrow> {x. (x = h \<or> x \<in> breakpoints avs \<and> h < x) \<and> x < hMax})"

lemma visited_step:
  assumes "h < hMax"
  shows "visited avs hMax (Some h) = insert h (visited avs hMax (findNextHeightInAirspaces avs h))"
proof (cases "{b \<in> breakpoints avs. h < b} = {}")
  case True
  then show ?thesis using assms
    by (auto simp: visited_def findNextHeightInAirspaces_eq minOpt_def)
next
  case False
  let ?B = "{b \<in> breakpoints avs. h < b}"
  have fin: "finite ?B" using finite_breakpoints by simp
  have m: "Min ?B \<in> ?B" using fin False by (rule Min_in)
  have le: "\<And>b. b \<in> ?B \<Longrightarrow> Min ?B \<le> b" using fin by simp
  have "{x. (x = h \<or> x \<in> breakpoints avs \<and> h < x) \<and> x < hMax}
        = insert h {x. (x = Min ?B \<or> x \<in> breakpoints avs \<and> Min ?B < x) \<and> x < hMax}"
    (is "?L = ?R")
  proof (rule set_eqI)
    fix x
    show "x \<in> ?L \<longleftrightarrow> x \<in> ?R"
    proof
      assume "x \<in> ?L"
      then consider "x = h" | "x \<in> ?B" "x < hMax" by auto
      then show "x \<in> ?R"
      proof cases
        case 1 then show ?thesis by simp
      next
        case 2
        with le [of x] have "x = Min ?B \<or> Min ?B < x" by auto
        with 2 show ?thesis by auto
      qed
    next
      assume "x \<in> ?R"
      then show "x \<in> ?L" using m assms by auto
    qed
  qed
  moreover have "findNextHeightInAirspaces avs h = Some (Min ?B)"
    using False by (simp add: findNextHeightInAirspaces_eq minOpt_def)
  ultimately show ?thesis
    by (simp only: visited_def option.case)
qed



lemma sweep_keys:
  "fst ` set (sweep avs hMax ho d)
   = fst ` set d \<union> {x \<in> visited avs hMax ho. \<exists>v \<in> set avs. covers v x}"
proof (induction avs hMax ho d rule: sweep.induct)
  case (1 avs hMax sortedAirspaces)
  show ?case by (simp add: sweep.simps visited_def)
next
  case (2 avs hMax h sortedAirspaces)
  show ?case
  proof (cases "h < hMax")
    case False
    then have "visited avs hMax (Some h) = {}" by (auto simp: visited_def)
    with False show ?thesis by (simp add: sweep.simps)
  next
    case True
    note IH = 2 [OF True]
    show ?thesis
    proof (cases "nearestAirspaceInHeight avs h")
      case None
      then have "\<not> (\<exists>v \<in> set avs. covers v h)" by (simp add: nearestAirspaceInHeight_None)
      with None True IH show ?thesis
        by (auto simp: sweep.simps visited_step)
    next
      case (Some n)
      then have "\<exists>v \<in> set avs. covers v h"
        using nearestAirspaceInHeight_None [of avs h] by simp
      with Some True IH show ?thesis
        by (auto simp: sweep.simps visited_step dom_update)
    qed
  qed
qed

lemma heightBands_keys:
  "fst ` set (heightBands avs) =
     (if avs = [] then {}
      else {h \<in> breakpoints avs.
              Min ((\<lambda>v. getMin (airspace v)) ` set avs) \<le> h
            \<and> h < Max ((\<lambda>v. getMax (airspace v)) ` set avs)
            \<and> (\<exists>v \<in> set avs. covers v h)})"
proof (cases "avs = []")
  case True
  then show ?thesis by (simp add: heightBands_def findLowestHeightInAirspaces_def)
next
  case False
  let ?lo = "Min ((\<lambda>v. getMin (airspace v)) ` set avs)"
  let ?hi = "Max ((\<lambda>v. getMax (airspace v)) ` set avs)"
  have "?lo \<in> (\<lambda>v. getMin (airspace v)) ` set avs"
    using False by (intro Min_in) auto
  then have lo: "?lo \<in> breakpoints avs" by (auto simp: breakpoints_def)
  have "visited avs ?hi (Some ?lo) = {h \<in> breakpoints avs. ?lo \<le> h \<and> h < ?hi}"
    using lo by (auto simp: visited_def)
  then show ?thesis using False
    by (auto simp: heightBands_def findLowestHeightInAirspaces_eq findHighestHeightInAirspaces_eq
          sweep_keys)
qed

lemma update_fresh: "k \<notin> fst ` set al \<Longrightarrow> AList.update k v al = al @ [(k, v)]"
  by (induction al) auto

lemma sweep_sorted:
  "sorted_wrt (<) (map fst d) \<Longrightarrow> (\<forall>h. ho = Some h \<longrightarrow> (\<forall>k \<in> fst ` set d. k < h))
   \<Longrightarrow> sorted_wrt (<) (map fst (sweep avs hMax ho d))"
proof (induction avs hMax ho d rule: sweep.induct)
  case (1 avs hMax sortedAirspaces)
  then show ?case by (simp add: sweep.simps)
next
  case (2 avs hMax h sortedAirspaces)
  show ?case
  proof (cases "h < hMax")
    case False
    with 2 show ?thesis by (simp add: sweep.simps)
  next
    case True
    let ?d = "case nearestAirspaceInHeight avs h of None \<Rightarrow> sortedAirspaces
              | Some nearestAirspace \<Rightarrow> AList.update h nearestAirspace sortedAirspaces"
    have fresh: "h \<notin> fst ` set sortedAirspaces" using 2(3) by auto
    have s: "sorted_wrt (<) (map fst ?d)"
      using 2(2,3) fresh by (auto simp: update_fresh sorted_wrt_append split: option.splits)
    have k: "\<forall>h'. findNextHeightInAirspaces avs h = Some h' \<longrightarrow> (\<forall>k \<in> fst ` set ?d. k < h')"
    proof (intro allI impI ballI)
      fix h' k assume n: "findNextHeightInAirspaces avs h = Some h'" and k: "k \<in> fst ` set ?d"
      let ?B = "{b \<in> breakpoints avs. h < b}"
      from n have ne: "?B \<noteq> {}" and h': "h' = Min ?B"
        by (auto simp: findNextHeightInAirspaces_eq minOpt_def split: if_splits)
      have "Min ?B \<in> ?B" using finite_breakpoints ne by (intro Min_in) auto
      then have "h < h'" using h' by simp
      moreover from k have "k \<le> h" using 2(3) fresh
        by (auto simp: update_fresh split: option.splits)
      ultimately show "k < h'" by simp
    qed
    from 2(1) [OF True s k] True show ?thesis by (simp add: sweep.simps)
  qed
qed

lemma heightBands_sorted: "sorted_wrt (<) (map fst (heightBands avs))"
  by (auto simp: heightBands_def split: option.splits intro!: sweep_sorted)


text \<open>
  Claim C6. \<open>hMin\<close> is the minimum floor and \<open>hMax\<close> the maximum ceiling of the
  vectors; the sweep starts at \<open>hMin\<close>; a step runs only while \<open>h < hMax\<close>, records
  the band's choice if a vector covers the band, and goes on at the smallest floor or
  ceiling strictly above \<open>h\<close>, or stops if there is none. So the keys of the map are
  the breakpoints from \<open>hMin\<close> up to, not including, \<open>hMax\<close> that some vector covers:
  a band that no vector covers has no entry.
\<close>

theorem height_sweep_breakpoints:
  "findLowestHeightInAirspaces avs =
     (if avs = [] then None else Some (Min ((\<lambda>v. getMin (airspace v)) ` set avs)))
   \<and> findHighestHeightInAirspaces avs =
     (if avs = [] then None else Some (Max ((\<lambda>v. getMax (airspace v)) ` set avs)))
   \<and> findNextHeightInAirspaces avs h =
     (if {b \<in> breakpoints avs. h < b} = {} then None
      else Some (Min {b \<in> breakpoints avs. h < b}))
   \<and> (avs \<noteq> [] \<longrightarrow>
        heightBands avs =
          sweep avs (Max ((\<lambda>v. getMax (airspace v)) ` set avs))
            (Some (Min ((\<lambda>v. getMin (airspace v)) ` set avs))) [])
   \<and> heightBands [] = []
   \<and> sweep avs hMax None d = d
   \<and> sweep avs hMax (Some h) d =
       (if h < hMax
        then sweep avs hMax (findNextHeightInAirspaces avs h)
               (if \<exists>v \<in> set avs. covers v h
                then AList.update h (the (nearestAirspaceInHeight avs h)) d else d)
        else d)
   \<and> fst ` set (heightBands avs) =
       (if avs = [] then {}
        else {h \<in> breakpoints avs.
                Min ((\<lambda>v. getMin (airspace v)) ` set avs) \<le> h
              \<and> h < Max ((\<lambda>v. getMax (airspace v)) ` set avs)
              \<and> (\<exists>v \<in> set avs. covers v h)})"
proof (intro conjI)
  show "findLowestHeightInAirspaces avs =
     (if avs = [] then None else Some (Min ((\<lambda>v. getMin (airspace v)) ` set avs)))"
    by (rule findLowestHeightInAirspaces_eq)
  show "findHighestHeightInAirspaces avs =
     (if avs = [] then None else Some (Max ((\<lambda>v. getMax (airspace v)) ` set avs)))"
    by (rule findHighestHeightInAirspaces_eq)
  show "findNextHeightInAirspaces avs h =
     (if {b \<in> breakpoints avs. h < b} = {} then None
      else Some (Min {b \<in> breakpoints avs. h < b}))"
    by (simp only: findNextHeightInAirspaces_eq minOpt_def)
  show "avs \<noteq> [] \<longrightarrow>
        heightBands avs =
          sweep avs (Max ((\<lambda>v. getMax (airspace v)) ` set avs))
            (Some (Min ((\<lambda>v. getMin (airspace v)) ` set avs))) []"
    by (simp add: heightBands_def findLowestHeightInAirspaces_eq findHighestHeightInAirspaces_eq)
  show "heightBands [] = []"
    by (simp add: heightBands_def findLowestHeightInAirspaces_def)
  show "sweep avs hMax None d = d"
    by (simp add: sweep.simps)
  show "sweep avs hMax (Some h) d =
       (if h < hMax
        then sweep avs hMax (findNextHeightInAirspaces avs h)
               (if \<exists>v \<in> set avs. covers v h
                then AList.update h (the (nearestAirspaceInHeight avs h)) d else d)
        else d)"
  proof (cases "nearestAirspaceInHeight avs h")
    case None
    then have "\<not> (\<exists>v \<in> set avs. covers v h)" by (simp add: nearestAirspaceInHeight_None)
    with None show ?thesis by (simp add: sweep.simps)
  next
    case (Some n)
    then have "\<exists>v \<in> set avs. covers v h"
      using nearestAirspaceInHeight_None [of avs h] by simp
    with Some show ?thesis by (simp add: sweep.simps)
  qed
  show "fst ` set (heightBands avs) =
       (if avs = [] then {}
        else {h \<in> breakpoints avs.
                Min ((\<lambda>v. getMin (airspace v)) ` set avs) \<le> h
              \<and> h < Max ((\<lambda>v. getMax (airspace v)) ` set avs)
              \<and> (\<exists>v \<in> set avs. covers v h)})"
    by (rule heightBands_keys)
qed

theorem height_sweep_breakpoints_witness:
  "(0, False) \<in> fst ` set (heightBands [exampleVector 0 0 1000 1 0 False, exampleVector 1 2000 3000 5 0 True])
   \<and> (1000, False) \<notin> fst ` set (heightBands [exampleVector 0 0 1000 1 0 False, exampleVector 1 2000 3000 5 0 True])
   \<and> (2000, False) \<in> fst ` set (heightBands [exampleVector 0 0 1000 1 0 False, exampleVector 1 2000 3000 5 0 True])
   \<and> (3000, False) \<notin> fst ` set (heightBands [exampleVector 0 0 1000 1 0 False, exampleVector 1 2000 3000 5 0 True])"
  using height_sweep_breakpoints
      [of "[exampleVector 0 0 1000 1 0 False, exampleVector 1 2000 3000 5 0 True]",
       THEN conjunct2, THEN conjunct2, THEN conjunct2, THEN conjunct2, THEN conjunct2,
       THEN conjunct2, THEN conjunct2]
  by (simp add: breakpoints_def covers_def exampleVector_def exampleAirspace_def)

section \<open>The first pass\<close>

text \<open>
  Walking the entries by ascending height with the airspace of the last surviving
  entry: an entry of that same airspace is dropped, any other entry survives.
\<close>

fun dropSameAsSurvivor ::
  "Airspace option \<Rightarrow> (height \<times> AirspaceVector) list \<Rightarrow> (height \<times> AirspaceVector) list" where
  "dropSameAsSurvivor survivor [] = []"
| "dropSameAsSurvivor survivor (e # es) =
     (if survivor = Some (airspace (snd e))
      then dropSameAsSurvivor survivor es
      else e # dropSameAsSurvivor (Some (airspace (snd e))) es)"

lemma distinct_sortedItems:
  "distinct (map fst d) \<Longrightarrow> distinct (map fst (sortedItems d))"
  unfolding sortedItems_def
  by (induction d) (auto simp: distinct_insort_key)

lemma eliminateIdentical_loop_eq:
  "distinct (map fst es) \<Longrightarrow> fst ` set es \<inter> fst ` set acc = {}
   \<Longrightarrow> eliminateIdentical_loop (e # es) acc
       = acc @ dropSameAsSurvivor (Some (airspace (snd e))) es"
proof (induction es arbitrary: e acc)
  case Nil
  show ?case by simp
next
  case (Cons e2 es)
  have fresh: "fst e2 \<notin> fst ` set acc" using Cons.prems(2) by auto
  show ?case
  proof (cases "airspace (snd e) = airspace (snd e2)")
    case True
    have "eliminateIdentical_loop (e # e2 # es) acc = eliminateIdentical_loop (e2 # es) acc"
      using True by simp
    also have "\<dots> = acc @ dropSameAsSurvivor (Some (airspace (snd e2))) es"
      using Cons.prems by (intro Cons.IH) auto
    finally show ?thesis using True by simp
  next
    case False
    have "eliminateIdentical_loop (e # e2 # es) acc
          = eliminateIdentical_loop (e2 # es) (acc @ [e2])"
      using False fresh by (simp add: update_fresh)
    also have "\<dots> = (acc @ [e2]) @ dropSameAsSurvivor (Some (airspace (snd e2))) es"
      using Cons.prems by (intro Cons.IH) auto
    finally show ?thesis using False by simp
  qed
qed

lemma eliminateIdentical_eq:
  assumes "distinct (map fst d)"
  shows "eliminateIdentical d = dropSameAsSurvivor None (sortedItems d)"
proof (cases "sortedItems d")
  case Nil
  then show ?thesis by (simp add: eliminateIdentical_def)
next
  case (Cons e es)
  have "distinct (map fst (e # es))"
    using distinct_sortedItems [OF assms] Cons by simp
  then have "eliminateIdentical_loop (e # es) [e] = [e] @ dropSameAsSurvivor (Some (airspace (snd e))) es"
    by (intro eliminateIdentical_loop_eq) auto
  then show ?thesis using Cons by (simp add: eliminateIdentical_def)
qed

lemma dropSameAsSurvivor_run:
  "\<forall>e \<in> set run. airspace (snd e) = a \<Longrightarrow>
   dropSameAsSurvivor (Some a) (run @ post) = dropSameAsSurvivor (Some a) post"
  by (induction run) auto

lemma dropSameAsSurvivor_append:
  "pre \<noteq> [] \<Longrightarrow>
   dropSameAsSurvivor s (pre @ post)
   = dropSameAsSurvivor s pre @ dropSameAsSurvivor (Some (airspace (snd (last pre)))) post"
proof (induction pre arbitrary: s)
  case Nil
  then show ?case by simp
next
  case (Cons e pre)
  show ?case
  proof (cases "pre = []")
    case True
    then show ?thesis by (auto simp: dropSameAsSurvivor_run [of "[]", simplified])
  next
    case False
    then show ?thesis using Cons.IH by simp
  qed
qed

lemma dropSameAsSurvivor_fresh:
  "post = [] \<or> airspace (snd (hd post)) \<noteq> a \<Longrightarrow>
   dropSameAsSurvivor (Some a) post = dropSameAsSurvivor None post"
  by (cases post) auto

lemma dropSameAsSurvivor_collapse:
  assumes "run \<noteq> []" and "\<forall>e \<in> set run. airspace (snd e) = a"
    and "pre = [] \<or> airspace (snd (last pre)) \<noteq> a"
    and "post = [] \<or> airspace (snd (hd post)) \<noteq> a"
  shows "dropSameAsSurvivor None (pre @ run @ post)
         = dropSameAsSurvivor None pre @ [hd run] @ dropSameAsSurvivor None post"
proof -
  obtain r rs where run: "run = r # rs" using assms(1) by (cases run) auto
  have ra: "airspace (snd r) = a" and rsa: "\<forall>e \<in> set rs. airspace (snd e) = a"
    using assms(2) run by auto
  have tail: "dropSameAsSurvivor (Some a) (rs @ post) = dropSameAsSurvivor None post"
    using dropSameAsSurvivor_run [OF rsa] dropSameAsSurvivor_fresh [OF assms(4)] by simp
  show ?thesis
  proof (cases "pre = []")
    case True
    then show ?thesis using run ra tail by simp
  next
    case False
    with assms(3) have "airspace (snd (last pre)) \<noteq> a" by simp
    then show ?thesis using run ra tail False
      by (simp add: dropSameAsSurvivor_append)
  qed
qed

lemma sorted_sortedItems: "sorted (map fst (sortedItems d))"
  by (simp add: sortedItems_def)

text \<open>
  Claim C7. The first pass, walking the heights upwards, drops exactly the bands whose
  airspace is that of the last band that survived. A run of consecutive bands of one
  airspace, with other airspaces before and after it, leaves one entry: the first of the
  run, which has the lowest height of the run.
\<close>

theorem adjacent_duplicates_collapse:
  assumes "distinct (map fst d)"
  shows "eliminateIdentical d = dropSameAsSurvivor None (sortedItems d)
    \<and> (sortedItems d = pre @ run @ post \<and> run \<noteq> []
         \<and> (\<forall>e \<in> set run. airspace (snd e) = a)
         \<and> (pre = [] \<or> airspace (snd (last pre)) \<noteq> a)
         \<and> (post = [] \<or> airspace (snd (hd post)) \<noteq> a)
       \<longrightarrow> eliminateIdentical d
             = dropSameAsSurvivor None pre @ [hd run] @ dropSameAsSurvivor None post
           \<and> (\<forall>e \<in> set run. fst (hd run) \<le> fst e))"
proof (intro conjI impI)
  show "eliminateIdentical d = dropSameAsSurvivor None (sortedItems d)"
    using assms by (rule eliminateIdentical_eq)
next
  assume a: "sortedItems d = pre @ run @ post \<and> run \<noteq> []
         \<and> (\<forall>e \<in> set run. airspace (snd e) = a)
         \<and> (pre = [] \<or> airspace (snd (last pre)) \<noteq> a)
         \<and> (post = [] \<or> airspace (snd (hd post)) \<noteq> a)"
  then show "eliminateIdentical d
             = dropSameAsSurvivor None pre @ [hd run] @ dropSameAsSurvivor None post"
    using eliminateIdentical_eq [OF assms] dropSameAsSurvivor_collapse [of run a pre post]
    by simp
  have "sorted (map fst (pre @ run @ post))"
    using a sorted_sortedItems [of d] by simp
  then have "sorted (map fst run)" by (simp add: sorted_append)
  moreover obtain r rs where "run = r # rs" using a by (cases run) auto
  ultimately show "\<forall>e \<in> set run. fst (hd run) \<le> fst e" by auto
qed

theorem adjacent_duplicates_collapse_witness:
  "eliminateIdentical
     [((0, False), exampleVector 0 0 2000 1 0 False),
      ((1000, False), exampleVector 0 0 2000 1 0 False),
      ((2000, False), exampleVector 1 2000 3000 5 0 True)]
   = [((0, False), exampleVector 0 0 2000 1 0 False),
      ((2000, False), exampleVector 1 2000 3000 5 0 True)]"
  using adjacent_duplicates_collapse
    [of "[((0, False), exampleVector 0 0 2000 1 0 False),
          ((1000, False), exampleVector 0 0 2000 1 0 False),
          ((2000, False), exampleVector 1 2000 3000 5 0 True)]"
        "[]"
        "[((0, False), exampleVector 0 0 2000 1 0 False),
          ((1000, False), exampleVector 0 0 2000 1 0 False)]"
        "[((2000, False), exampleVector 1 2000 3000 5 0 True)]"
        "exampleAirspace 0 0 2000"]
  by (simp add: sortedItems_def exampleVector_def exampleAirspace_def)

section \<open>The second pass\<close>

text \<open>Two vectors with the same distance byte and bearing bytes at most 5 apart.\<close>

definition nearDuplicate :: "AirspaceVector \<Rightarrow> AirspaceVector \<Rightarrow> bool" where
  "nearDuplicate v1 v2 =
     (getDistanceAsByte v1 = getDistanceAsByte v2
      \<and> \<bar>getAngleAsByte v1 - getAngleAsByte v2\<bar> \<le> 5)"

text \<open>
  The second pass as the specification words it: a band is dropped when it is a near
  duplicate of the last band that survived.
\<close>

fun dropNearSurvivor ::
  "AirspaceVector option \<Rightarrow> (height \<times> AirspaceVector) list \<Rightarrow> (height \<times> AirspaceVector) list" where
  "dropNearSurvivor survivor [] = []"
| "dropNearSurvivor survivor (e # es) =
     (if \<exists>s. survivor = Some s \<and> nearDuplicate s (snd e)
      then dropNearSurvivor survivor es
      else e # dropNearSurvivor (Some (snd e)) es)"

text \<open>
  The second pass with the comparison against the band just below, whether or not that
  band survived.
\<close>

fun dropNearPredecessor ::
  "AirspaceVector option \<Rightarrow> (height \<times> AirspaceVector) list \<Rightarrow> (height \<times> AirspaceVector) list" where
  "dropNearPredecessor predecessor [] = []"
| "dropNearPredecessor predecessor (e # es) =
     (if \<exists>p. predecessor = Some p \<and> nearDuplicate p (snd e)
      then dropNearPredecessor (Some (snd e)) es
      else e # dropNearPredecessor (Some (snd e)) es)"

lemma eliminateSameVector_loop_eq:
  "distinct (map fst es) \<Longrightarrow> fst ` set es \<inter> fst ` set acc = {}
   \<Longrightarrow> eliminateSameVector_loop (e # es) acc
       = acc @ dropNearPredecessor (Some (snd e)) es"
proof (induction es arbitrary: e acc)
  case Nil
  show ?case by simp
next
  case (Cons e2 es)
  have fresh: "fst e2 \<notin> fst ` set acc" using Cons.prems(2) by auto
  show ?case
  proof (cases "nearDuplicate (snd e) (snd e2)")
    case True
    then have "eliminateSameVector_loop (e # e2 # es) acc = eliminateSameVector_loop (e2 # es) acc"
      by (simp add: nearDuplicate_def not_less)
    also have "\<dots> = acc @ dropNearPredecessor (Some (snd e2)) es"
      using Cons.prems by (intro Cons.IH) auto
    finally show ?thesis using True by simp
  next
    case False
    then have "eliminateSameVector_loop (e # e2 # es) acc
          = eliminateSameVector_loop (e2 # es) (acc @ [e2])"
      using fresh by (auto simp: update_fresh nearDuplicate_def not_le)
    also have "\<dots> = (acc @ [e2]) @ dropNearPredecessor (Some (snd e2)) es"
      using Cons.prems by (intro Cons.IH) auto
    finally show ?thesis using False by simp
  qed
qed

lemma length_sortedItems: "length (sortedItems d) = length d"
  by (simp add: sortedItems_def)

lemma eliminateSameVector_eq:
  assumes "distinct (map fst d)"
  shows "eliminateSameVector d =
     (if length d > levels then dropNearPredecessor None (sortedItems d) else d)"
proof (cases "sortedItems d")
  case Nil
  then have "d = []" using length_sortedItems [of d] by simp
  with Nil show ?thesis by (simp add: eliminateSameVector_def)
next
  case (Cons e es)
  have len: "length (e # es) = length d" using Cons length_sortedItems [of d] by simp
  have "distinct (map fst (e # es))"
    using distinct_sortedItems [OF assms] Cons by simp
  then have "eliminateSameVector_loop (e # es) [e] = [e] @ dropNearPredecessor (Some (snd e)) es"
    by (intro eliminateSameVector_loop_eq) auto
  then show ?thesis using Cons len by (simp add: eliminateSameVector_def)
qed

text \<open>
  Six airspaces stacked in bands of 1000 ft, at distance 0 and at bearings 12 degrees
  apart: the bearing bytes are 0, 4, 8, 12, 16, 20.
\<close>

definition sixBearings :: "AirspaceVector list" where
  "sixBearings =
     [exampleVector 0 0 1000 0 0 False, exampleVector 1 1000 2000 0 12 False,
      exampleVector 2 2000 3000 0 24 False, exampleVector 3 3000 4000 0 36 False,
      exampleVector 4 4000 5000 0 48 False, exampleVector 5 5000 6000 0 60 False]"

lemmas sweep_eval = heightBands_def findLowestHeightInAirspaces_def findHighestHeightInAirspaces_def
   findNextHeightInAirspaces_def nextHeightUpdate_def nearestAirspaceInHeight_def
   findAirspacesInHeight_def findAirspacesInside_def findNearestAirspace_def sweep.simps
   exampleVector_def exampleAirspace_def

lemma sixBearings_bands:
  "eliminateIdentical (heightBands sixBearings) =
     [((0, False), exampleVector 0 0 1000 0 0 False),
      ((1000, False), exampleVector 1 1000 2000 0 12 False),
      ((2000, False), exampleVector 2 2000 3000 0 24 False),
      ((3000, False), exampleVector 3 3000 4000 0 36 False),
      ((4000, False), exampleVector 4 4000 5000 0 48 False),
      ((5000, False), exampleVector 5 5000 6000 0 60 False)]"
  by (simp add: sixBearings_def sweep_eval eliminateIdentical_def sortedItems_def)

text \<open>
  Claim C4, as stated, fails: with the six bands above, the code keeps only the lowest
  band, because each band is within 5 bearing units of the band just below it. The band
  at 2000 ft is dropped although its bearing byte (8) differs by more than 5 from that of
  the only surviving band below it (0); comparing with the last surviving band would keep
  the bands at 0, 2000 and 4000 ft.
\<close>

theorem near_duplicates_previous_surviving_counterexample:
  "eliminateSameVector (eliminateIdentical (heightBands sixBearings))
     = [((0, False), exampleVector 0 0 1000 0 0 False)]
   \<and> dropNearSurvivor None (sortedItems (eliminateIdentical (heightBands sixBearings)))
     = [((0, False), exampleVector 0 0 1000 0 0 False),
        ((2000, False), exampleVector 2 2000 3000 0 24 False),
        ((4000, False), exampleVector 4 4000 5000 0 48 False)]"
  by (simp add: sixBearings_bands eliminateSameVector_def sortedItems_def levels_def
        nearDuplicate_def getDistanceAsByte_def getAngleAsByte_def clamp_def
        exampleVector_def exampleAirspace_def)


text \<open>
  Claim C4, amended. The second pass changes nothing unless the first pass left more
  than \<open>levels\<close> entries. Then, walking the heights upwards, it drops exactly the bands
  whose distance byte equals that of the band just below in the result of the first pass
  and whose bearing byte is at most 5 from that band's, whether or not that band itself
  survives; the lowest band is always kept.
\<close>

theorem near_duplicates_of_predecessor_dropped:
  assumes "distinct (map fst d)"
  shows "eliminateSameVector d =
           (if length d > levels then dropNearPredecessor None (sortedItems d) else d)
         \<and> (d \<noteq> [] \<longrightarrow> hd (sortedItems d) \<in> set (eliminateSameVector d))"
proof
  show eq: "eliminateSameVector d =
           (if length d > levels then dropNearPredecessor None (sortedItems d) else d)"
    using assms by (rule eliminateSameVector_eq)
  show "d \<noteq> [] \<longrightarrow> hd (sortedItems d) \<in> set (eliminateSameVector d)"
  proof
    assume "d \<noteq> []"
    then have "sortedItems d \<noteq> []" using length_sortedItems [of d] by auto
    then obtain e es where c: "sortedItems d = e # es" by (cases "sortedItems d") auto
    have "set (sortedItems d) = set d" by (simp add: sortedItems_def)
    with c have "e \<in> set d" by auto
    with c show "hd (sortedItems d) \<in> set (eliminateSameVector d)"
      by (simp add: eq)
  qed
qed

theorem near_duplicates_of_predecessor_dropped_witness:
  "eliminateSameVector
     [((0, False), exampleVector 0 0 1000 0 0 False),
      ((1000, False), exampleVector 1 1000 2000 0 12 False),
      ((2000, False), exampleVector 2 2000 3000 0 24 False),
      ((3000, False), exampleVector 3 3000 4000 640 36 False),
      ((4000, False), exampleVector 4 4000 5000 0 48 False),
      ((5000, False), exampleVector 5 5000 6000 0 60 False)]
   = [((0, False), exampleVector 0 0 1000 0 0 False),
      ((3000, False), exampleVector 3 3000 4000 640 36 False),
      ((4000, False), exampleVector 4 4000 5000 0 48 False)]"
  using near_duplicates_of_predecessor_dropped
    [of "[((0, False), exampleVector 0 0 1000 0 0 False),
          ((1000, False), exampleVector 1 1000 2000 0 12 False),
          ((2000, False), exampleVector 2 2000 3000 0 24 False),
          ((3000, False), exampleVector 3 3000 4000 640 36 False),
          ((4000, False), exampleVector 4 4000 5000 0 48 False),
          ((5000, False), exampleVector 5 5000 6000 0 60 False)]", THEN conjunct1]
  by (simp add: sortedItems_def levels_def nearDuplicate_def getDistanceAsByte_def
        getAngleAsByte_def clamp_def exampleVector_def exampleAirspace_def)

section \<open>The third pass\<close>

text \<open>
  The first vector of the list, in list order, that satisfies \<open>C\<close> and is at least as
  far as every vector satisfying \<open>C\<close>.
\<close>

definition firstFarthestOf :: "(AirspaceVector \<Rightarrow> bool) \<Rightarrow> AirspaceVector list \<Rightarrow> AirspaceVector option" where
  "firstFarthestOf C vs =
     find (\<lambda>v. C v \<and> (\<forall>w \<in> set vs. C w \<longrightarrow> distance w \<le> distance v)) vs"

lemma findFarestAirspace_snoc:
  "findFarestAirspace (xs @ [x]) =
     (case findFarestAirspace xs of None \<Rightarrow> Some x
      | Some n \<Rightarrow> if distance x > distance n then Some x else Some n)"
  by (simp add: findFarestAirspace_def split: option.splits)

lemma findFarestAirspace_None: "(findFarestAirspace xs = None) = (xs = [])"
  by (induction xs rule: rev_induct)
     (simp_all add: findFarestAirspace_snoc split: option.splits, simp add: findFarestAirspace_def)

lemma findFarestAirspace_find:
  "findFarestAirspace xs = find (\<lambda>v. \<forall>w \<in> set xs. distance w \<le> distance v) xs"
proof (induction xs rule: rev_induct)
  case Nil
  show ?case by (simp add: findFarestAirspace_def)
next
  case (snoc x xs)
  show ?case
  proof (cases "findFarestAirspace xs")
    case None
    then have "xs = []" by (simp add: findFarestAirspace_None)
    then show ?thesis
      by (simp add: findFarestAirspace_def)
  next
    case (Some n)
    with snoc have f: "find (\<lambda>v. \<forall>w \<in> set xs. distance w \<le> distance v) xs = Some n" by simp
    then have n: "n \<in> set xs" "\<forall>w \<in> set xs. distance w \<le> distance n"
      by (auto simp: find_Some_iff)
    show ?thesis
    proof (cases "distance x > distance n")
      case True
      with n have "\<forall>v \<in> set xs. \<not> (\<forall>w \<in> set (xs @ [x]). distance w \<le> distance v)"
        by fastforce
      then have "find (\<lambda>v. \<forall>w \<in> set (xs @ [x]). distance w \<le> distance v) xs = None"
        by (simp add: find_None_iff)
      moreover have "\<forall>w \<in> set (xs @ [x]). distance w \<le> distance x"
        using True n by fastforce
      ultimately show ?thesis using Some True
        by (simp add: findFarestAirspace_snoc find_append)
    next
      case False
      have "find (\<lambda>v. \<forall>w \<in> set (xs @ [x]). distance w \<le> distance v) xs
            = find (\<lambda>v. \<forall>w \<in> set xs. distance w \<le> distance v) xs"
      proof (rule find_cong [OF refl])
        fix v assume "v \<in> set xs"
        with n False show "(\<forall>w \<in> set (xs @ [x]). distance w \<le> distance v)
                            = (\<forall>w \<in> set xs. distance w \<le> distance v)"
          by fastforce
      qed
      with f Some False show ?thesis
        by (simp add: findFarestAirspace_snoc find_append)
    qed
  qed
qed

lemma findFarest_filter:
  "findFarestAirspace (filter C vs) = firstFarthestOf C vs"
proof -
  have eq: "\<And>v. (\<forall>w \<in> set (filter C vs). distance w \<le> distance v)
             = (\<forall>w \<in> set vs. C w \<longrightarrow> distance w \<le> distance v)"
    by auto
  show ?thesis
    by (simp only: findFarestAirspace_find find_filter firstFarthestOf_def eq)
qed

lemma deleteFarest_eq:
  "deleteFarest cA =
     (case firstFarthestOf (\<lambda>v. \<not> inside v) (map snd cA) of
        None \<Rightarrow> None
      | Some far \<Rightarrow> Some (filter (\<lambda>e. snd e \<noteq> far) cA))"
proof -
  have lam: "\<And>x. (\<lambda>(height :: height, v :: AirspaceVector). v \<noteq> x) = (\<lambda>e. snd e \<noteq> x)"
    by auto
  show ?thesis
    by (simp add: deleteFarest_def findAirspacesNotInside_def findFarest_filter lam
          split: option.splits)
qed

lemma firstFarthestOf_Some:
  "firstFarthestOf C vs = Some far \<Longrightarrow> far \<in> set vs \<and> C far"
  by (auto simp: firstFarthestOf_def find_Some_iff)

lemma firstFarthestOf_None:
  "(firstFarthestOf C vs = None) = (\<not> (\<exists>v \<in> set vs. C v))"
  by (simp only: findFarest_filter [symmetric] findFarestAirspace_None filter_empty_conv) auto

lemma deleteFarest_keeps_inside:
  assumes "deleteFarest cA = Some cA2"
  shows "filter (\<lambda>e. inside (snd e)) cA2 = filter (\<lambda>e. inside (snd e)) cA"
proof -
  from assms obtain far where far: "firstFarthestOf (\<lambda>v. \<not> inside v) (map snd cA) = Some far"
    and c2: "cA2 = filter (\<lambda>e. snd e \<noteq> far) cA"
    by (auto simp: deleteFarest_eq split: option.splits)
  from firstFarthestOf_Some [OF far] have "\<not> inside far" by simp
  then have h: "\<And>e :: height \<times> AirspaceVector. (snd e \<noteq> far \<and> inside (snd e)) = inside (snd e)"
    by auto
  show ?thesis by (simp only: c2 filter_filter h)
qed

lemma deleteFarAway_fatal_iff:
  "(deleteFarAway p cA = Inl (TooMuchAirspaces p))
   = (length (filter (\<lambda>e. inside (snd e)) cA) > levels)"
proof (induction p cA rule: deleteFarAway.induct)
  case (1 p cA)
  let ?ins = "filter (\<lambda>e. inside (snd e)) cA"
  have le: "length ?ins \<le> length cA" by simp
  show ?case
  proof (cases "length cA > levels")
    case False
    with le have "\<not> length ?ins > levels" by linarith
    with False show ?thesis by (simp add: deleteFarAway.simps)
  next
    case True
    show ?thesis
    proof (cases "deleteFarest cA")
      case None
      then have "\<not> (\<exists>v \<in> set (map snd cA). \<not> inside v)"
        by (simp add: deleteFarest_eq firstFarthestOf_None split: option.splits)
      then have "?ins = cA" by (auto intro: filter_True)
      with None True show ?thesis by (simp add: deleteFarAway.simps)
    next
      case (Some c2)
      from 1 [OF True Some] deleteFarest_keeps_inside [OF Some] Some True
      show ?thesis by (simp add: deleteFarAway.simps)
    qed
  qed
qed

lemma deleteFarAway_error:
  "deleteFarAway p cA = Inl e \<Longrightarrow> e = TooMuchAirspaces p"
proof (induction p cA rule: deleteFarAway.induct)
  case (1 p cA)
  then show ?case
    by (cases "length cA > levels"; cases "deleteFarest cA")
       (auto simp: deleteFarAway.simps)
qed

lemma deleteFarAway_result:
  "deleteFarAway p cA = Inr cA' \<Longrightarrow>
     length cA' \<le> levels
   \<and> filter (\<lambda>e. inside (snd e)) cA' = filter (\<lambda>e. inside (snd e)) cA
   \<and> (\<exists>P. cA' = filter P cA)"
proof (induction p cA rule: deleteFarAway.induct)
  case (1 p cA)
  show ?case
  proof (cases "length cA > levels")
    case False
    with 1(2) have "cA' = cA" by (simp add: deleteFarAway.simps)
    moreover have "cA = filter (\<lambda>e. True) cA" by simp
    ultimately show ?thesis using False by (auto simp del: filter_True)
  next
    case True
    show ?thesis
    proof (cases "deleteFarest cA")
      case None
      with True 1(2) show ?thesis by (simp add: deleteFarAway.simps)
    next
      case (Some c2)
      with True 1(2) have r: "deleteFarAway p c2 = Inr cA'" by (simp add: deleteFarAway.simps)
      from 1(1) [OF True Some r] obtain P where
        a: "length cA' \<le> levels"
        and b: "filter (\<lambda>e. inside (snd e)) cA' = filter (\<lambda>e. inside (snd e)) c2"
        and c: "cA' = filter P c2" by auto
      from Some obtain far where "c2 = filter (\<lambda>e. snd e \<noteq> far) cA"
        by (auto simp: deleteFarest_eq split: option.splits)
      with c have "cA' = filter (\<lambda>e. snd e \<noteq> far \<and> P e) cA" by (simp add: conj_commute)
      with a b deleteFarest_keeps_inside [OF Some] show ?thesis by metis
    qed
  qed
qed

text \<open>
  An airspace that is far away and spans 0 to 25000 ft, and three airspaces that contain
  the point, in bands that leave gaps: the far airspace is the choice of four bands.
\<close>

definition oneFarThreeInside :: "AirspaceVector list" where
  "oneFarThreeInside =
     [exampleVector 0 0 25000 6400 0 False, exampleVector 1 1000 2000 0 0 True,
      exampleVector 2 3000 4000 0 0 True, exampleVector 3 5000 6000 0 0 True]"

lemma oneFarThreeInside_bands:
  "eliminateSameVector (eliminateIdentical (heightBands oneFarThreeInside)) =
     [((0, False), exampleVector 0 0 25000 6400 0 False),
      ((1000, False), exampleVector 1 1000 2000 0 0 True),
      ((2000, False), exampleVector 0 0 25000 6400 0 False),
      ((3000, False), exampleVector 2 3000 4000 0 0 True),
      ((4000, False), exampleVector 0 0 25000 6400 0 False),
      ((5000, False), exampleVector 3 5000 6000 0 0 True),
      ((6000, False), exampleVector 0 0 25000 6400 0 False)]"
  by (simp add: oneFarThreeInside_def sweep_eval eliminateIdentical_def sortedItems_def
        eliminateSameVector_def levels_def getDistanceAsByte_def getAngleAsByte_def clamp_def)

text \<open>
  Claim C5, as stated, fails: the sweep and the first two passes leave seven entries, of
  which four hold the vector of the far airspace; one iteration of the third pass deletes
  all four of them, not one, and three entries are left.
\<close>

theorem one_entry_per_iteration_counterexample:
  "eliminateSameVector (eliminateIdentical (heightBands oneFarThreeInside)) =
     [((0, False), exampleVector 0 0 25000 6400 0 False),
      ((1000, False), exampleVector 1 1000 2000 0 0 True),
      ((2000, False), exampleVector 0 0 25000 6400 0 False),
      ((3000, False), exampleVector 2 3000 4000 0 0 True),
      ((4000, False), exampleVector 0 0 25000 6400 0 False),
      ((5000, False), exampleVector 3 5000 6000 0 0 True),
      ((6000, False), exampleVector 0 0 25000 6400 0 False)]
   \<and> deleteFarest (eliminateSameVector (eliminateIdentical (heightBands oneFarThreeInside))) =
     Some [((1000, False), exampleVector 1 1000 2000 0 0 True),
           ((3000, False), exampleVector 2 3000 4000 0 0 True),
           ((5000, False), exampleVector 3 5000 6000 0 0 True)]"
  by (simp add: oneFarThreeInside_bands)
     (simp add: deleteFarest_def findAirspacesNotInside_def findFarestAirspace_def
        exampleVector_def exampleAirspace_def)


text \<open>
  Claim C5, amended. While an entry with \<open>inside == false\<close> exists, an iteration of the
  third pass finds the vector with \<open>inside == false\<close> of maximum distance among those
  entries, the first in the order of the map among equals, and deletes every entry that
  holds this vector: at least one entry, and exactly one when the vector is the choice of
  one band only. All other entries stay in place. While the count exceeds \<open>levels\<close>
  the loop goes on with that result.
\<close>

theorem farthest_outside_vector_deleted:
  assumes "\<exists>e \<in> set cA. \<not> inside (snd e)"
  shows "case firstFarthestOf (\<lambda>v. \<not> inside v) (map snd cA) of
           None \<Rightarrow> False
         | Some far \<Rightarrow>
             deleteFarest cA = Some (filter (\<lambda>e. snd e \<noteq> far) cA)
           \<and> length (filter (\<lambda>e. snd e \<noteq> far) cA)
               = length cA - length (filter (\<lambda>e. snd e = far) cA)
           \<and> 0 < length (filter (\<lambda>e. snd e = far) cA)
           \<and> (length cA > levels \<longrightarrow>
                deleteFarAway p cA = deleteFarAway p (filter (\<lambda>e. snd e \<noteq> far) cA))"
proof (cases "firstFarthestOf (\<lambda>v. \<not> inside v) (map snd cA)")
  case None
  with assms show ?thesis by (auto simp: firstFarthestOf_None)
next
  case (Some far)
  then have d: "deleteFarest cA = Some (filter (\<lambda>e. snd e \<noteq> far) cA)"
    by (simp add: deleteFarest_eq)
  have "length (filter (\<lambda>e. snd e = far) cA) + length (filter (\<lambda>e. \<not> snd e = far) cA) = length cA"
    by (rule sum_length_filter_compl)
  then have l: "length (filter (\<lambda>e. snd e \<noteq> far) cA)
               = length cA - length (filter (\<lambda>e. snd e = far) cA)"
    by simp
  from firstFarthestOf_Some [OF Some] have "far \<in> snd ` set cA" by simp
  then have "filter (\<lambda>e. snd e = far) cA \<noteq> []"
    by (auto simp: filter_empty_conv)
  then have pos: "0 < length (filter (\<lambda>e. snd e = far) cA)" by simp
  have "length cA > levels \<longrightarrow>
          deleteFarAway p cA = deleteFarAway p (filter (\<lambda>e. snd e \<noteq> far) cA)"
    using d by (simp add: deleteFarAway.simps)
  with Some d l pos show ?thesis by simp
qed

theorem farthest_outside_vector_deleted_witness:
  "deleteFarest
     [((0, False), exampleVector 0 0 1000 500 0 False),
      ((1000, False), exampleVector 1 1000 2000 900 0 True),
      ((2000, False), exampleVector 2 2000 3000 700 0 False),
      ((3000, False), exampleVector 3 3000 4000 700 0 False)]
   = Some [((0, False), exampleVector 0 0 1000 500 0 False),
           ((1000, False), exampleVector 1 1000 2000 900 0 True),
           ((3000, False), exampleVector 3 3000 4000 700 0 False)]"
  using farthest_outside_vector_deleted
    [of "[((0, False), exampleVector 0 0 1000 500 0 False),
          ((1000, False), exampleVector 1 1000 2000 900 0 True),
          ((2000, False), exampleVector 2 2000 3000 700 0 False),
          ((3000, False), exampleVector 3 3000 4000 700 0 False)]"]
  by (simp add: firstFarthestOf_def exampleVector_def exampleAirspace_def)


text \<open>Six bands, each inside another airspace.\<close>

definition sixInside :: "airspace_dict" where
  "sixInside =
     [((0, False), exampleVector 0 0 1000 0 0 True),
      ((1000, False), exampleVector 1 1000 2000 0 90 True),
      ((2000, False), exampleVector 2 2000 3000 0 0 True),
      ((3000, False), exampleVector 3 3000 4000 0 90 True),
      ((4000, False), exampleVector 4 4000 5000 0 0 True),
      ((5000, False), exampleVector 5 5000 6000 0 90 True)]"

section \<open>The bytes written for a point\<close>

lemma writeBytes_eq:
  "offset + length bytes \<le> length output \<Longrightarrow>
   writeBytes output offset bytes
   = Inr (take offset output @ bytes @ drop (offset + length bytes) output, offset + length bytes)"
proof (induction bytes arbitrary: "output" offset)
  case Nil
  show ?case by simp
next
  case (Cons b bytes)
  then have lt: "offset < length output" by simp
  have len: "Suc offset + length bytes \<le> length (output[offset := b])"
    using Cons.prems by simp
  have t: "take (Suc offset) (output[offset := b]) = take offset output @ [b]"
    using lt by (simp add: take_Suc_conv_app_nth)
  have d: "drop (Suc offset + length bytes) (output[offset := b])
           = drop (Suc offset + length bytes) output"
    by simp
  show ?case
    using lt Cons.IH [OF len] by (simp add: t d)
qed

lemma writeLevels_eq:
  "offset + length (concat bss) \<le> length output \<Longrightarrow>
   writeLevels output offset bss
   = Inr (take offset output @ concat bss @ drop (offset + length (concat bss)) output,
          offset + length (concat bss))"
proof (induction bss arbitrary: "output" offset)
  case Nil
  show ?case by simp
next
  case (Cons bs bss)
  let ?o1 = "take offset output @ bs @ drop (offset + length bs) output"
  have l1: "offset + length bs \<le> length output" using Cons.prems by simp
  have w: "writeBytes output offset bs = Inr (?o1, offset + length bs)"
    using l1 by (rule writeBytes_eq)
  have len1: "length ?o1 = length output" using l1 by simp
  have l2: "(offset + length bs) + length (concat bss) \<le> length ?o1"
    using Cons.prems len1 by simp
  have t: "take (offset + length bs) ?o1 = take offset output @ bs"
    using l1 by simp
  have d: "drop (offset + length bs + length (concat bss)) ?o1
           = drop (offset + length bs + length (concat bss)) output"
    using l1 by (simp add: ac_simps)
  have "writeLevels output offset (bs # bss) = writeLevels ?o1 (offset + length bs) bss"
    using w by simp
  also have "\<dots> = Inr (take (offset + length bs) ?o1 @ concat bss
                        @ drop (offset + length bs + length (concat bss)) ?o1,
                      offset + length bs + length (concat bss))"
    by (rule Cons.IH [OF l2])
  also have "\<dots> = Inr ((take offset output @ bs) @ concat bss
                        @ drop (offset + length bs + length (concat bss)) output,
                      offset + length bs + length (concat bss))"
    by (simp only: t d)
  finally show ?case by (simp add: add.assoc)
qed

lemma drop_splice:
  "length a = n \<Longrightarrow> length b = m \<Longrightarrow> drop (n + m + k) (a @ b @ c) = drop k c"
  by simp

lemma take_splice:
  "length a = n \<Longrightarrow> length b = m \<Longrightarrow> take (n + m) (a @ b @ c) = a @ b"
  by simp

lemma length_getBytes: "length (getBytes v) = sizeof_level"
  by (simp add: getBytes_def sizeof_level_def)

lemma length_concat_getBytes:
  "length (concat (map (\<lambda>(height1, v). getBytes v) es)) = length es * sizeof_level"
  by (induction es) (auto simp: length_getBytes)

lemma concat_replicate_emptyBytes:
  "concat (replicate n emptyBytes) = replicate (n * sizeof_level) 0"
proof (induction n)
  case 0
  show ?case by simp
next
  case (Suc n)
  have "replicate (4 + n * 4) (0 :: byte) = replicate 4 0 @ replicate (n * 4) 0"
    by (rule replicate_add)
  also have "replicate 4 (0 :: byte) = [0, 0, 0, 0]"
    by (simp add: eval_nat_numeral)
  finally show ?case using Suc by (simp add: emptyBytes_def sizeof_level_def)
qed

text \<open>The bytes of the record of a point: the levels, then the padding.\<close>

definition levelBytes :: "airspace_dict \<Rightarrow> byte list" where
  "levelBytes cA =
     concat (map (\<lambda>(height1, v). getBytes v) (sortedItems cA))
     @ replicate ((levels - length cA) * sizeof_level) 0"

lemma length_levelBytes:
  "length cA \<le> levels \<Longrightarrow> length (levelBytes cA) = levels * sizeof_level"
  by (simp add: levelBytes_def length_concat_getBytes length_sortedItems
        add_mult_distrib [symmetric])

lemma dumpVectors_eq:
  assumes room: "offset + levels * sizeof_level \<le> length output"
  shows "dumpVectors output offset p avs =
     (case deleteFarAway p (eliminateSameVector (eliminateIdentical (heightBands avs))) of
        Inl err \<Rightarrow> Inl (TooMuchAirspaces p)
      | Inr cA \<Rightarrow>
          Inr (take offset output @ levelBytes cA
               @ drop (offset + levels * sizeof_level) output))"
proof (cases "deleteFarAway p (eliminateSameVector (eliminateIdentical (heightBands avs)))")
  case (Inl err)
  then have "err = TooMuchAirspaces p" by (rule deleteFarAway_error)
  with Inl show ?thesis by (simp add: dumpVectors_def)
next
  case (Inr cA)
  from deleteFarAway_result [OF Inr] have le: "length cA \<le> levels" by (rule conjunct1)
  let ?b1 = "map (\<lambda>(height1, v). getBytes v) (sortedItems cA)"
  let ?n1 = "length cA * sizeof_level"
  let ?n2 = "(levels - length cA) * sizeof_level"
  let ?o1 = "take offset output @ concat ?b1 @ drop (offset + ?n1) output"
  have n12: "?n1 + ?n2 = levels * sizeof_level"
    using le by (simp add: add_mult_distrib [symmetric])
  have l1: "length (concat ?b1) = ?n1"
    by (simp add: length_concat_getBytes length_sortedItems)
  have r1: "offset + length (concat ?b1) \<le> length output"
    using room n12 l1 by simp
  have w1: "writeLevels output offset ?b1 = Inr (?o1, offset + ?n1)"
    using writeLevels_eq [OF r1] l1 by simp
  have len1: "length ?o1 = length output" using r1 l1 by simp
  have l2: "length (concat (replicate (levels - length cA) emptyBytes)) = ?n2"
    by (simp add: concat_replicate_emptyBytes)
  have r2: "(offset + ?n1) + length (concat (replicate (levels - length cA) emptyBytes))
            \<le> length ?o1"
    using room n12 l2 len1 by simp
  have t: "take (offset + ?n1) ?o1 = take offset output @ concat ?b1"
    using take_splice [of "take offset output" offset "concat ?b1" ?n1] r1 l1 by simp
  have lt: "length (take offset output) = offset" using r1 by simp
  have "drop (offset + ?n1 + ?n2) ?o1 = drop ?n2 (drop (offset + ?n1) output)"
    using lt l1 by (rule drop_splice)
  also have "\<dots> = drop (offset + (?n1 + ?n2)) output"
    by (simp add: ac_simps)
  finally have d: "drop (offset + ?n1 + ?n2) ?o1 = drop (offset + levels * sizeof_level) output"
    by (simp only: n12)
  have w2: "writeLevels ?o1 (offset + ?n1) (replicate (levels - length cA) emptyBytes)
            = Inr (take offset output @ concat ?b1 @ replicate ?n2 0
                   @ drop (offset + levels * sizeof_level) output, offset + ?n1 + ?n2)"
    using writeLevels_eq [OF r2]
    by (simp only: l2 t d concat_replicate_emptyBytes length_replicate append_assoc)
  show ?thesis
    using Inr w1 w2 by (simp add: dumpVectors_def levelBytes_def)
qed

text \<open>Six airspaces stacked in bands of 1000 ft, each containing the point.\<close>

definition sixInsideVectors :: "AirspaceVector list" where
  "sixInsideVectors = map snd sixInside"

lemma sixInside_bands:
  "eliminateSameVector (eliminateIdentical (heightBands sixInsideVectors)) = sixInside"
  by (simp add: sixInsideVectors_def sixInside_def sweep_eval eliminateIdentical_def sortedItems_def
        eliminateSameVector_def levels_def getDistanceAsByte_def getAngleAsByte_def clamp_def)

text \<open>
  Claim C2, as stated, fails: for the six stacked airspaces that contain the point, the
  third pass ends in the fatal error before the first byte is written, so \<open>dumpPoint\<close>
  writes no byte at all.
\<close>

theorem twenty_bytes_for_every_set_counterexample:
  "dumpVectors (replicate 20 255) 0 (9, 48) sixInsideVectors = Inl (TooMuchAirspaces (9, 48))"
proof -
  have "deleteFarAway (9, 48) sixInside = Inl (TooMuchAirspaces (9, 48))"
    by (simp add: deleteFarAway_fatal_iff sixInside_def levels_def exampleVector_def
          exampleAirspace_def)
  then show ?thesis
    by (simp add: dumpVectors_def sixInside_bands)
qed

text \<open>
  Claim C2, amended. For a buffer with room for \<open>levels * sizeof_level\<close> = 20 bytes at
  the offset and every list of candidate vectors, the empty list included: unless the
  third pass ends in the fatal error, \<open>dumpPoint\<close> returns the buffer with exactly the
  20 bytes from the offset replaced, by the four bytes of each surviving entry in
  ascending height followed by zero bytes up to 20, and with every byte before and after
  them unchanged. For the empty list the 20 bytes are zero.
\<close>

theorem point_record_is_twenty_bytes:
  assumes "offset + levels * sizeof_level \<le> length output"
  shows "dumpVectors output offset p avs =
     (case deleteFarAway p (eliminateSameVector (eliminateIdentical (heightBands avs))) of
        Inl err \<Rightarrow> Inl (TooMuchAirspaces p)
      | Inr cA \<Rightarrow>
          Inr (take offset output @ levelBytes cA
               @ drop (offset + levels * sizeof_level) output))
   \<and> (\<forall>cA. deleteFarAway p (eliminateSameVector (eliminateIdentical (heightBands avs))) = Inr cA
          \<longrightarrow> length cA \<le> levels \<and> length (levelBytes cA) = levels * sizeof_level)
   \<and> dumpVectors output offset p [] =
       Inr (take offset output @ replicate (levels * sizeof_level) 0
            @ drop (offset + levels * sizeof_level) output)
   \<and> levels * sizeof_level = 20"
proof (intro conjI allI impI)
  show "dumpVectors output offset p avs =
     (case deleteFarAway p (eliminateSameVector (eliminateIdentical (heightBands avs))) of
        Inl err \<Rightarrow> Inl (TooMuchAirspaces p)
      | Inr cA \<Rightarrow>
          Inr (take offset output @ levelBytes cA
               @ drop (offset + levels * sizeof_level) output))"
    using assms by (rule dumpVectors_eq)
next
  fix cA
  assume r: "deleteFarAway p (eliminateSameVector (eliminateIdentical (heightBands avs))) = Inr cA"
  from deleteFarAway_result [OF r] show le: "length cA \<le> levels" by (rule conjunct1)
  then show "length (levelBytes cA) = levels * sizeof_level" by (rule length_levelBytes)
next
  have "deleteFarAway p (eliminateSameVector (eliminateIdentical (heightBands []))) = Inr []"
    by (simp add: heightBands_def findLowestHeightInAirspaces_def eliminateIdentical_def
          eliminateSameVector_def sortedItems_def deleteFarAway.simps)
  moreover have "levelBytes [] = replicate (levels * sizeof_level) 0"
    by (simp add: levelBytes_def sortedItems_def)
  ultimately show "dumpVectors output offset p [] =
       Inr (take offset output @ replicate (levels * sizeof_level) 0
            @ drop (offset + levels * sizeof_level) output)"
    using dumpVectors_eq [OF assms, of p "[]"] by simp
next
  show "levels * sizeof_level = 20" by (simp add: levels_def sizeof_level_def)
qed

theorem point_record_is_twenty_bytes_witness:
  "dumpVectors (replicate 22 7) 1 (9, 48) oneFarThreeInside =
     Inr ([7] @ [4, 8, 128, 0] @ [12, 16, 128, 0] @ [20, 24, 128, 0]
          @ [0, 0, 0, 0] @ [0, 0, 0, 0] @ [7])"
proof -
  have d: "deleteFarAway (9, 48) (eliminateSameVector (eliminateIdentical (heightBands oneFarThreeInside)))
        = Inr [((1000, False), exampleVector 1 1000 2000 0 0 True),
               ((3000, False), exampleVector 2 3000 4000 0 0 True),
               ((5000, False), exampleVector 3 5000 6000 0 0 True)]"
    by (simp add: oneFarThreeInside_bands)
       (simp add: deleteFarAway.simps levels_def deleteFarest_def findAirspacesNotInside_def
          findFarestAirspace_def exampleVector_def exampleAirspace_def)
  have l: "levelBytes [((1000, False), exampleVector 1 1000 2000 0 0 True),
               ((3000, False), exampleVector 2 3000 4000 0 0 True),
               ((5000, False), exampleVector 3 5000 6000 0 0 True)]
         = [4, 8, 128, 0, 12, 16, 128, 0, 20, 24, 128, 0, 0, 0, 0, 0, 0, 0, 0, 0]"
    by (simp add: levelBytes_def sortedItems_def getBytes_def altitudeByte_def getAngleAsByte_def
          getDistanceAsByte_def clamp_def levels_def sizeof_level_def exampleVector_def
          exampleAirspace_def eval_nat_numeral)
  have t: "take 1 (replicate 22 (7 :: byte)) = [7]"
    "drop (1 + levels * sizeof_level) (replicate 22 (7 :: byte)) = [7]"
    by (simp_all add: levels_def sizeof_level_def eval_nat_numeral)
  have "1 + levels * sizeof_level \<le> length (replicate 22 (7 :: byte))"
    by (simp add: levels_def sizeof_level_def)
  from point_record_is_twenty_bytes [OF this, of "(9, 48)" oneFarThreeInside, THEN conjunct1]
  show ?thesis
    by (simp only: d sum.case l t append.simps)
qed

section \<open>Decoding a level record\<close>

text \<open>
  The variable \<open>ceil\<close> when the line of a level is printed: a number of feet, or the
  string "MAX".
\<close>

datatype altitude_text = Feet int | CeilMAX

text \<open>
  A printed line: \<open>"  level", level, "---"\<close> for an empty level, otherwise the level
  with floor, floor mode, ceiling, ceiling mode, angle, distance and the inside text.
\<close>

datatype level_line =
    EmptyLevel nat
  | LevelLine nat int string altitude_text string int int string

text \<open>
  The body of the loop \<open>for level in range(levels)\<close> of \<open>main\<close>, on the four bytes
  \<open>output[offset+0]\<close> to \<open>output[offset+3]\<close> of the level; \<open>int.from_bytes\<close> of one
  unsigned byte is \<open>uint\<close>.
\<close>

definition decodeLevel :: "nat \<Rightarrow> byte \<Rightarrow> byte \<Rightarrow> byte \<Rightarrow> byte \<Rightarrow> level_line" where
  "decodeLevel level b0 b1 b2 b3 =
     (let floor_raw = uint b0;
          ceil_raw = uint b1;
          angle_raw = uint b2;
          distance_raw = uint b3;
          floorAGL = floor_raw > 127;
          floor_ft = (if floorAGL then floor_raw - 128 else floor_raw) * 250;
          floor_mode = (if floorAGL then ''AGL'' else ''MSL'');
          ceilAGL = ceil_raw > 127;
          ceil_ft = (if ceilAGL then ceil_raw - 128 else ceil_raw) * 250;
          ceil_mode = (if ceilAGL then ''AGL'' else ''MSL'');
          angle_deg = (if angle_raw > 127 then angle_raw - 128 else angle_raw) * 3;
          inside_text = (if angle_raw > 127 then '' INSIDE!'' else '''');
          distance_m = distance_raw * 64
      in if ceil_ft = 0 then EmptyLevel level
         else LevelLine level floor_ft floor_mode
                (if ceil_raw AND 0x7F = 0x7F then CeilMAX else Feet ceil_ft)
                ceil_mode angle_deg distance_m inside_text)"

lemma and_127_mod: "(x :: int) AND 127 = x mod 128"
proof -
  have "(127 :: int) = mask 7" by (simp add: mask_eq_exp_minus_1)
  then have "x AND 127 = take_bit 7 x" by (simp add: take_bit_eq_mask)
  then show ?thesis by (simp add: take_bit_eq_mod)
qed

lemma low7_uint: "uint (b AND 0x7F) = uint b mod 128" for b :: byte
  by (simp add: uint_and and_127_mod)

lemma low7_eq: "(b AND 0x7F = c) = (uint b mod 128 = uint c)" for b c :: byte
  by (simp add: word_uint_eq_iff low7_uint)

lemma uint_byte_range: "0 \<le> uint b \<and> uint b < 256" for b :: byte
  using uint_lt2p [of b] by simp

text \<open>
  Claim C8. A ceiling byte whose low 7 bits are \<open>0x7F\<close> is printed as "MAX"; a record is
  printed as the empty level "---" exactly when the low 7 bits of its ceiling byte are 0,
  whatever the other three bytes are, so four zero bytes are an empty level; any other
  ceiling byte is printed as 250 ft times its low 7 bits.
\<close>

theorem decode_ceiling_sentinels:
  fixes b0 b1 b2 b3 :: byte
  shows "(b1 AND 0x7F = 0x7F \<longrightarrow>
            (\<exists>f fm cm a d i. decodeLevel level b0 b1 b2 b3 = LevelLine level f fm CeilMAX cm a d i))
       \<and> ((decodeLevel level b0 b1 b2 b3 = EmptyLevel level) = (b1 AND 0x7F = 0))
       \<and> (b1 AND 0x7F \<noteq> 0 \<and> b1 AND 0x7F \<noteq> 0x7F \<longrightarrow>
            (\<exists>f fm cm a d i. decodeLevel level b0 b1 b2 b3
                 = LevelLine level f fm (Feet (uint (b1 AND 0x7F) * 250)) cm a d i))
       \<and> decodeLevel level 0 0 0 0 = EmptyLevel level"
proof -
  have r: "0 \<le> uint b1" "uint b1 < 256" using uint_byte_range [of b1] by simp_all
  have m: "uint b1 mod 128 = (if uint b1 > 127 then uint b1 - 128 else uint b1)"
  proof (cases "uint b1 > 127")
    case True
    have "uint b1 mod 128 = (uint b1 - 128) mod 128" by (simp only: minus_mod_self2)
    also have "\<dots> = uint b1 - 128" using True r by (intro mod_pos_pos_trivial) auto
    finally show ?thesis using True by simp
  next
    case False
    then show ?thesis using r by (simp add: mod_pos_pos_trivial)
  qed
  show ?thesis
    using r by (auto simp: decodeLevel_def Let_def low7_eq low7_uint and_127_mod m)
qed

theorem decode_ceiling_sentinels_witness:
  "(\<exists>f fm cm a d i. decodeLevel 0 128 255 9 200 = LevelLine 0 f fm CeilMAX cm a d i)
   \<and> decodeLevel 2 7 128 9 200 = EmptyLevel 2
   \<and> (\<exists>f fm cm a d i. decodeLevel 1 128 20 9 200 = LevelLine 1 f fm (Feet 5000) cm a d i)"
  using decode_ceiling_sentinels [of 255 0 128 9 200]
    decode_ceiling_sentinels [of 128 2 7 9 200]
    decode_ceiling_sentinels [of 20 1 128 9 200]
  by simp

section \<open>The tile\<close>

text \<open>
  The Geometry Provider: the methods of \<open>Airspace\<close> and \<open>AirspaceVector\<close> that compute
  with the polygon of an airspace. They are not in \<open>convert.py\<close>; the functions below
  take them as a parameter.
\<close>

record geometry =
  getDistanceToCenter :: "Airspace \<Rightarrow> point \<Rightarrow> real"
  getAirspaceVector :: "Airspace \<Rightarrow> point \<Rightarrow> AirspaceVector"
  isTooFar :: "AirspaceVector \<Rightarrow> bool"

text \<open>
  The list \<open>avs\<close> of \<open>dumpPoint\<close>: for each airspace whose centre is nearer than 100 km,
  its vector at the point, unless that vector is too far.
\<close>

definition nearbyVectors :: "geometry \<Rightarrow> point \<Rightarrow> Airspace list \<Rightarrow> AirspaceVector list" where
  "nearbyVectors G p airspaces =
     concat (map (\<lambda>airspace.
                    if getDistanceToCenter G airspace p / (100 * 1000) < 100
                    then (let av = getAirspaceVector G airspace p
                          in if \<not> isTooFar G av then [av] else [])
                    else [])
                 airspaces)"

text \<open>
  \<open>dumpPoint(output, offset, p, airspaces)\<close>; the arguments \<open>draw\<close> and \<open>check\<close> only
  choose what is plotted and printed.
\<close>

definition dumpPoint ::
  "geometry \<Rightarrow> byte list \<Rightarrow> nat \<Rightarrow> point \<Rightarrow> Airspace list \<Rightarrow> error + byte list" where
  "dumpPoint G output offset p airspaces =
     dumpVectors output offset p (nearbyVectors G p airspaces)"

text \<open>
  The place of a Python index in a sequence of the given length: an index below 0
  counts from the end.
\<close>

definition pyIndex :: "nat \<Rightarrow> int \<Rightarrow> nat option" where
  "pyIndex len i =
     (if 0 \<le> i \<and> i < int len then Some (nat i)
      else if - int len \<le> i \<and> i < 0 then Some (nat (int len + i))
      else None)"

text \<open>
  The write loops and \<open>dumpPoint\<close> once more, for an offset that is any integer, as the
  raster computes it; for an offset that is not negative they are the functions above
  (lemma \<open>dumpPointAt_nat\<close>).
\<close>

fun writeBytesAt :: "byte list \<Rightarrow> int \<Rightarrow> byte list \<Rightarrow> error + (byte list \<times> int)" where
  "writeBytesAt output offset [] = Inr (output, offset)"
| "writeBytesAt output offset (byte # bytes) =
     (case pyIndex (length output) offset of
        None \<Rightarrow> Inl IndexError
      | Some i \<Rightarrow> writeBytesAt (output[i := byte]) (offset + 1) bytes)"

fun writeLevelsAt :: "byte list \<Rightarrow> int \<Rightarrow> byte list list \<Rightarrow> error + (byte list \<times> int)" where
  "writeLevelsAt output offset [] = Inr (output, offset)"
| "writeLevelsAt output offset (bytes # rest) =
     (case writeBytesAt output offset bytes of
        Inl e \<Rightarrow> Inl e
      | Inr (output', offset') \<Rightarrow> writeLevelsAt output' offset' rest)"

definition dumpVectorsAt :: "byte list \<Rightarrow> int \<Rightarrow> point \<Rightarrow> AirspaceVector list \<Rightarrow> error + byte list" where
  "dumpVectorsAt output offset p avs =
     (case deleteFarAway p (eliminateSameVector (eliminateIdentical (heightBands avs))) of
        Inl e \<Rightarrow> Inl e
      | Inr compactAirspaces \<Rightarrow>
          (case writeLevelsAt output offset
                  (map (\<lambda>(height1, v). getBytes v) (sortedItems compactAirspaces)) of
             Inl e \<Rightarrow> Inl e
           | Inr (output', offset') \<Rightarrow>
               (case writeLevelsAt output' offset'
                       (replicate (levels - length compactAirspaces) emptyBytes) of
                  Inl e \<Rightarrow> Inl e
                | Inr (output'', offset'') \<Rightarrow> Inr output'')))"

definition dumpPointAt ::
  "geometry \<Rightarrow> byte list \<Rightarrow> int \<Rightarrow> point \<Rightarrow> Airspace list \<Rightarrow> error + byte list" where
  "dumpPointAt G output offset p airspaces =
     dumpVectorsAt output offset p (nearbyVectors G p airspaces)"

text \<open>The decimal digits of a number, and Python's format \<open>0<width>d\<close>.\<close>

fun digits :: "nat \<Rightarrow> string" where
  "digits n =
     (if n < 10 then [''0123456789'' ! n]
      else digits (n div 10) @ [''0123456789'' ! (n mod 10)])"

declare digits.simps [simp del]

definition format_d :: "nat \<Rightarrow> int \<Rightarrow> string" where
  "format_d width n =
     (let sign = (if n < 0 then ''-'' else '''');
          ds = digits (nat \<bar>n\<bar>)
      in sign @ replicate (width - length sign - length ds) (CHR ''0'') @ ds)"

text \<open>\<open>f"N{lat:02d}E{lon:03d}.air"\<close>\<close>

definition tileFilename :: "int \<Rightarrow> int \<Rightarrow> string" where
  "tileFilename lon lat = ''N'' @ format_d 2 lat @ ''E'' @ format_d 3 lon @ ''.air''"

text \<open>
  The regular files by name, with their bytes: \<open>os.path.isfile(filename)\<close> is
  \<open>filename \<in> dom fs\<close>.
\<close>

type_synonym file_system = "string \<rightharpoonup> byte list"

text \<open>
  How \<open>dump\<close> ends: it returns, it calls \<open>sys.exit\<close> with a status, or an exception
  that it does not catch leaves it.
\<close>

datatype outcome = Returned | Exited nat | Raised error

text \<open>
  The arithmetic of doubles is not modelled. What \<open>dump\<close> computes with doubles is a
  parameter of the functions below: \<open>arange_unit N start n\<close> is the list of doubles
  \<open>numpy.arange(start, start + 1, 1/n)\<close>; \<open>rasterRow N numPoints lat lat_i\<close> is the
  integer \<open>int(numPoints - 1 - y)\<close> for \<open>y = (lat_i - lat) * numPoints\<close>; and
  \<open>rasterColumn N numPoints lon lon_i\<close> is the integer \<open>int(x)\<close> for
  \<open>x = (lon_i - lon) * numPoints\<close>.
\<close>

record numerics =
  arange_unit :: "int \<Rightarrow> nat \<Rightarrow> real list"
  rasterRow :: "nat \<Rightarrow> int \<Rightarrow> real \<Rightarrow> int"
  rasterColumn :: "nat \<Rightarrow> int \<Rightarrow> real \<Rightarrow> int"

text \<open>
  The points of the two nested loops, latitudes outside and longitudes inside; a point
  is \<open>Point(lon_i, lat_i)\<close>.
\<close>

definition gridPoints :: "numerics \<Rightarrow> int \<Rightarrow> int \<Rightarrow> nat \<Rightarrow> point list" where
  "gridPoints N lon lat n =
     concat (map (\<lambda>lat_i. map (\<lambda>lon_i. (lon_i, lat_i)) (arange_unit N lon n))
                 (arange_unit N lat n))"

text \<open>
  "Quickcheck for emptyness": each point is dumped at offset 0, then the first
  \<open>levels * sizeof_level\<close> bytes of the buffer are inspected.
\<close>

fun checkEmptiness ::
  "geometry \<Rightarrow> Airspace list \<Rightarrow> point list \<Rightarrow> byte list \<Rightarrow> bool \<Rightarrow> error + (byte list \<times> bool)" where
  "checkEmptiness G airspaces [] output isEmpty = Inr (output, isEmpty)"
| "checkEmptiness G airspaces (p # ps) output isEmpty =
     (case dumpPoint G output 0 p airspaces of
        Inl e \<Rightarrow> Inl e
      | Inr output' \<Rightarrow>
          checkEmptiness G airspaces ps output'
            (if list_ex (\<lambda>byte. byte \<noteq> 0) (take (levels * sizeof_level) output')
             then False else isEmpty))"

text \<open>
  The loops that fill the raster: the offset of a point is
  \<open>(int(numPoints - 1 - y) * numPoints + int(x)) * (levels * sizeof_level)\<close>.
\<close>

fun raster ::
  "numerics \<Rightarrow> geometry \<Rightarrow> Airspace list \<Rightarrow> int \<Rightarrow> int \<Rightarrow> nat \<Rightarrow> point list \<Rightarrow> byte list
   \<Rightarrow> error + byte list" where
  "raster N G airspaces lon lat numPoints [] output = Inr output"
| "raster N G airspaces lon lat numPoints ((lon_i, lat_i) # ps) output =
     (let offset = (rasterRow N numPoints lat lat_i * int numPoints
                    + rasterColumn N numPoints lon lon_i) * int (levels * sizeof_level)
      in case dumpPointAt G output offset (lon_i, lat_i) airspaces of
           Inl e \<Rightarrow> Inl e
         | Inr output' \<Rightarrow> raster N G airspaces lon lat numPoints ps output')"

text \<open>
  The code after the \<open>try\<close> block; \<open>opened\<close> tells whether \<open>f\<close> is a file, which
  \<open>open(filename, 'wb')\<close> has created empty, or still \<open>None\<close>.
\<close>

definition finish :: "string \<Rightarrow> bool \<Rightarrow> byte list \<Rightarrow> file_system \<Rightarrow> outcome \<times> file_system" where
  "finish filename opened output fs =
     (if \<not> list_ex (\<lambda>byte. byte \<noteq> 0) output then (Returned, fs)
      else if opened then (Returned, fs(filename \<mapsto> output))
      else (Raised AttributeError, fs))"

text \<open>
  An error inside the \<open>try\<close> block: \<open>SystemExit\<close> is caught, an opened file is closed
  and removed (\<open>fs_removed\<close>), and the process exits with status 1; any other error
  is not caught and leaves the files as they are (\<open>fs_now\<close>).
\<close>

definition failed :: "error \<Rightarrow> file_system \<Rightarrow> file_system \<Rightarrow> outcome \<times> file_system" where
  "failed e fs_removed fs_now =
     (case e of TooMuchAirspaces p \<Rightarrow> (Exited 1, fs_removed) | _ \<Rightarrow> (Raised e, fs_now))"

text \<open>
  \<open>dump(lon, lat, airspaces, draw)\<close> with the globals \<open>force\<close> and
  \<open>wantedResolution\<close>, a number of points per degree. The file is opened before the
  step \<open>1/numPoints\<close> of the raster is computed.
\<close>

definition dump ::
  "numerics \<Rightarrow> bool \<Rightarrow> nat \<Rightarrow> geometry \<Rightarrow> int \<Rightarrow> int \<Rightarrow> Airspace list \<Rightarrow> bool \<Rightarrow> file_system
   \<Rightarrow> outcome \<times> file_system" where
  "dump N force wantedResolution G lon lat airspaces draw fs =
     (let filename = tileFilename lon lat;
          numPoints = (if draw then 10 else wantedResolution);
          filesize = numPoints * numPoints * levels * sizeof_level
      in if filename \<in> dom fs \<and> \<not> force then (Returned, fs)
         else
           (case checkEmptiness G airspaces (gridPoints N lon lat 10) (replicate filesize 0) True of
              Inl e \<Rightarrow> failed e fs fs
            | Inr (output, isEmpty) \<Rightarrow>
                if \<not> isEmpty
                then (if numPoints = 0 then (Raised ZeroDivisionError, fs(filename \<mapsto> []))
                      else
                        (case raster N G airspaces lon lat numPoints
                                (gridPoints N lon lat numPoints) output of
                           Inl e \<Rightarrow> failed e (fs(filename := None)) (fs(filename \<mapsto> []))
                         | Inr output' \<Rightarrow> finish filename True output' (fs(filename \<mapsto> []))))
                else finish filename False output fs))"

section \<open>Properties of the tile\<close>

lemma writeBytes_fail:
  "offset \<le> length output \<Longrightarrow> offset + length bytes > length output
   \<Longrightarrow> writeBytes output offset bytes = Inl IndexError"
proof (induction bytes arbitrary: "output" offset)
  case Nil
  then show ?case by simp
next
  case (Cons b bytes)
  show ?case
  proof (cases "offset < length output")
    case True
    have "writeBytes (output[offset := b]) (offset + 1) bytes = Inl IndexError"
      using Cons.prems True by (intro Cons.IH) auto
    with True show ?thesis by simp
  next
    case False
    then show ?thesis by simp
  qed
qed

lemma writeLevels_fail:
  "offset \<le> length output \<Longrightarrow> offset + length (concat bss) > length output
   \<Longrightarrow> writeLevels output offset bss = Inl IndexError"
proof (induction bss arbitrary: "output" offset)
  case Nil
  then show ?case by simp
next
  case (Cons bs bss)
  show ?case
  proof (cases "offset + length bs \<le> length output")
    case False
    then have "writeBytes output offset bs = Inl IndexError"
      using Cons.prems(1) by (intro writeBytes_fail) auto
    then show ?thesis by simp
  next
    case True
    let ?o1 = "take offset output @ bs @ drop (offset + length bs) output"
    have w: "writeBytes output offset bs = Inr (?o1, offset + length bs)"
      using True by (rule writeBytes_eq)
    have len1: "length ?o1 = length output" using True by simp
    have "writeLevels ?o1 (offset + length bs) bss = Inl IndexError"
      using Cons.prems True len1 by (intro Cons.IH) auto
    with w show ?thesis by simp
  qed
qed

lemma dumpVectors_short:
  assumes short: "length output < levels * sizeof_level"
    and ok: "deleteFarAway p (eliminateSameVector (eliminateIdentical (heightBands avs))) = Inr cA"
  shows "dumpVectors output 0 p avs = Inl IndexError"
proof -
  from deleteFarAway_result [OF ok] have le: "length cA \<le> levels" by (rule conjunct1)
  let ?b1 = "map (\<lambda>(height1, v). getBytes v) (sortedItems cA)"
  let ?pad = "replicate (levels - length cA) emptyBytes"
  let ?n1 = "length cA * sizeof_level"
  let ?n2 = "(levels - length cA) * sizeof_level"
  have n12: "?n1 + ?n2 = levels * sizeof_level"
    using le by (simp add: add_mult_distrib [symmetric])
  have l1: "length (concat ?b1) = ?n1"
    by (simp add: length_concat_getBytes length_sortedItems)
  have l2: "length (concat ?pad) = ?n2"
    by (simp add: concat_replicate_emptyBytes)
  show ?thesis
  proof (cases "?n1 \<le> length output")
    case False
    then have "writeLevels output 0 ?b1 = Inl IndexError"
      using l1 by (intro writeLevels_fail) auto
    with ok show ?thesis by (simp add: dumpVectors_def)
  next
    case True
    let ?o1 = "take 0 output @ concat ?b1 @ drop (0 + length (concat ?b1)) output"
    have w1: "writeLevels output 0 ?b1 = Inr (?o1, 0 + length (concat ?b1))"
      using True l1 by (intro writeLevels_eq) auto
    have len1: "length ?o1 = length output" using True l1 by simp
    have "writeLevels ?o1 (0 + length (concat ?b1)) ?pad = Inl IndexError"
      using True l1 l2 n12 short len1 by (intro writeLevels_fail) auto
    with ok w1 show ?thesis by (simp add: dumpVectors_def)
  qed
qed

text \<open>The record of a point on its own, as \<open>main\<close> computes it for the check point.\<close>

definition pointRecord :: "geometry \<Rightarrow> point \<Rightarrow> Airspace list \<Rightarrow> error + byte list" where
  "pointRecord G p airspaces =
     dumpPoint G (replicate (levels * sizeof_level) 0) 0 p airspaces"

lemma pointRecord_eq:
  "pointRecord G p airspaces =
     (case deleteFarAway p (eliminateSameVector (eliminateIdentical
                (heightBands (nearbyVectors G p airspaces)))) of
        Inl err \<Rightarrow> Inl (TooMuchAirspaces p)
      | Inr cA \<Rightarrow> Inr (levelBytes cA))"
  by (simp add: pointRecord_def dumpPoint_def dumpVectors_eq split: sum.splits)

lemma dumpPoint_at_0:
  assumes "levels * sizeof_level \<le> length output"
  shows "dumpPoint G output 0 p airspaces =
     (case pointRecord G p airspaces of
        Inl e \<Rightarrow> Inl e
      | Inr r \<Rightarrow> Inr (r @ drop (levels * sizeof_level) output))"
  using assms
  by (simp add: pointRecord_eq dumpPoint_def dumpVectors_eq split: sum.splits)

lemma pointRecord_length:
  "pointRecord G p airspaces = Inr r \<Longrightarrow> length r = levels * sizeof_level"
  by (auto simp: pointRecord_eq split: sum.splits
        dest!: deleteFarAway_result intro: length_levelBytes)

lemma checkEmptiness_eq:
  assumes "levels * sizeof_level \<le> length output"
    and "\<forall>p \<in> set ps. \<exists>r. pointRecord G p airspaces = Inr r"
  shows "\<exists>output'. checkEmptiness G airspaces ps output isEmpty
           = Inr (output',
                  isEmpty \<and> (\<forall>p \<in> set ps. pointRecord G p airspaces
                                 = Inr (replicate (levels * sizeof_level) 0)))
         \<and> length output' = length output
         \<and> drop (levels * sizeof_level) output' = drop (levels * sizeof_level) output"
  using assms
proof (induction ps arbitrary: "output" isEmpty)
  case Nil
  then show ?case by simp
next
  case (Cons p ps)
  from Cons.prems(2) obtain r where r: "pointRecord G p airspaces = Inr r" by auto
  have lr: "length r = levels * sizeof_level" using r by (rule pointRecord_length)
  let ?o1 = "r @ drop (levels * sizeof_level) output"
  have d: "dumpPoint G output 0 p airspaces = Inr ?o1"
    using Cons.prems(1) r by (simp add: dumpPoint_at_0)
  have len1: "length ?o1 = length output" using lr Cons.prems(1) by simp
  have dr: "drop (levels * sizeof_level) ?o1 = drop (levels * sizeof_level) output"
    using lr by simp
  have tk: "take (levels * sizeof_level) ?o1 = r" using lr by simp
  have z: "list_ex (\<lambda>byte. byte \<noteq> 0) r = (r \<noteq> replicate (levels * sizeof_level) 0)"
  proof -
    have "(\<forall>b \<in> set r. b = 0) = (r = replicate (length r) 0)"
      by (metis in_set_replicate replicate_eqI)
    then show ?thesis using lr by (auto simp: list_ex_iff)
  qed
  let ?b = "if list_ex (\<lambda>byte. byte \<noteq> 0) (take (levels * sizeof_level) ?o1)
            then False else isEmpty"
  have b: "?b = (isEmpty \<and> r = replicate (levels * sizeof_level) 0)"
    by (simp only: tk z) auto
  have l2: "levels * sizeof_level \<le> length ?o1" using len1 Cons.prems(1) by simp
  have p2: "\<forall>p \<in> set ps. \<exists>r. pointRecord G p airspaces = Inr r" using Cons.prems(2) by simp
  from Cons.IH [OF l2 p2, of ?b] obtain out where
    c: "checkEmptiness G airspaces ps ?o1 ?b
          = Inr (out, ?b \<and> (\<forall>p \<in> set ps. pointRecord G p airspaces
                                 = Inr (replicate (levels * sizeof_level) 0)))"
    and lo: "length out = length ?o1"
    and dro: "drop (levels * sizeof_level) out = drop (levels * sizeof_level) ?o1"
    by blast
  have "checkEmptiness G airspaces (p # ps) output isEmpty
        = checkEmptiness G airspaces ps ?o1 ?b"
    using d by simp
  with c have "checkEmptiness G airspaces (p # ps) output isEmpty
        = Inr (out, isEmpty \<and> (\<forall>q \<in> set (p # ps). pointRecord G q airspaces
                                 = Inr (replicate (levels * sizeof_level) 0)))"
    using b r by auto
  with lo dro len1 dr show ?case by auto
qed

lemma length_gridPoints:
  "length (gridPoints N lon lat n) = length (arange_unit N lat n) * length (arange_unit N lon n)"
  by (simp add: gridPoints_def length_concat comp_def sum_list_triv)

lemma finish_zero: "finish filename opened (replicate n 0) fs = (Returned, fs)"
  by (simp add: finish_def list_ex_iff)

lemma checkEmptiness_zero:
  assumes "levels * sizeof_level \<le> n"
    and "\<forall>p \<in> set ps. pointRecord G p airspaces = Inr (replicate (levels * sizeof_level) 0)"
  shows "checkEmptiness G airspaces ps (replicate n 0) isEmpty = Inr (replicate n 0, isEmpty)"
  using assms(2)
proof (induction ps)
  case Nil
  show ?case by simp
next
  case (Cons p ps)
  have "replicate (levels * sizeof_level) (0 :: byte)
          @ drop (levels * sizeof_level) (replicate n 0)
        = replicate (levels * sizeof_level + (n - levels * sizeof_level)) 0"
    by (simp add: replicate_add)
  then have r: "replicate (levels * sizeof_level) (0 :: byte)
          @ drop (levels * sizeof_level) (replicate n 0) = replicate n 0"
    using assms(1) by simp
  have "dumpPoint G (replicate n 0) 0 p airspaces = Inr (replicate n 0)"
    using assms(1) Cons.prems r by (simp add: dumpPoint_at_0)
  then show ?case using Cons by (simp add: list_ex_iff)
qed

lemma checkEmptiness_last:
  assumes "levels * sizeof_level \<le> length output"
    and "\<forall>p \<in> set (qs @ [q]). \<exists>r. pointRecord G p airspaces = Inr r"
    and "pointRecord G q airspaces = Inr r"
  shows "checkEmptiness G airspaces (qs @ [q]) output isEmpty
         = Inr (r @ drop (levels * sizeof_level) output,
                isEmpty \<and> (\<forall>p \<in> set (qs @ [q]). pointRecord G p airspaces
                               = Inr (replicate (levels * sizeof_level) 0)))"
  using assms(1,2)
proof (induction qs arbitrary: "output" isEmpty)
  case Nil
  have lr: "length r = levels * sizeof_level" using assms(3) by (rule pointRecord_length)
  have z: "list_ex (\<lambda>byte. byte \<noteq> 0) r = (r \<noteq> replicate (levels * sizeof_level) 0)"
  proof -
    have "(\<forall>b \<in> set r. b = 0) = (r = replicate (length r) 0)"
      by (metis in_set_replicate replicate_eqI)
    then show ?thesis using lr by (auto simp: list_ex_iff)
  qed
  have "dumpPoint G output 0 q airspaces = Inr (r @ drop (levels * sizeof_level) output)"
    using Nil.prems(1) assms(3) by (simp add: dumpPoint_at_0)
  then show ?case using lr z assms(3) by auto
next
  case (Cons p qs)
  from Cons.prems(2) obtain rp where rp: "pointRecord G p airspaces = Inr rp" by auto
  have lr: "length rp = levels * sizeof_level" using rp by (rule pointRecord_length)
  let ?o1 = "rp @ drop (levels * sizeof_level) output"
  have d: "dumpPoint G output 0 p airspaces = Inr ?o1"
    using Cons.prems(1) rp by (simp add: dumpPoint_at_0)
  have len1: "levels * sizeof_level \<le> length ?o1" using lr by simp
  have dr: "drop (levels * sizeof_level) ?o1 = drop (levels * sizeof_level) output"
    using lr by simp
  have tk: "take (levels * sizeof_level) ?o1 = rp" using lr by simp
  have z: "list_ex (\<lambda>byte. byte \<noteq> 0) rp = (rp \<noteq> replicate (levels * sizeof_level) 0)"
  proof -
    have "(\<forall>b \<in> set rp. b = 0) = (rp = replicate (length rp) 0)"
      by (metis in_set_replicate replicate_eqI)
    then show ?thesis using lr by (auto simp: list_ex_iff)
  qed
  let ?b = "if list_ex (\<lambda>byte. byte \<noteq> 0) (take (levels * sizeof_level) ?o1)
            then False else isEmpty"
  have b: "?b = (isEmpty \<and> rp = replicate (levels * sizeof_level) 0)"
    by (simp only: tk z) auto
  have p2: "\<forall>p \<in> set (qs @ [q]). \<exists>r. pointRecord G p airspaces = Inr r"
    using Cons.prems(2) by simp
  have "checkEmptiness G airspaces ((p # qs) @ [q]) output isEmpty
        = checkEmptiness G airspaces (qs @ [q]) ?o1 ?b"
    using d by simp
  also have "\<dots> = Inr (r @ drop (levels * sizeof_level) ?o1,
                ?b \<and> (\<forall>p \<in> set (qs @ [q]). pointRecord G p airspaces
                               = Inr (replicate (levels * sizeof_level) 0)))"
    using len1 p2 by (rule Cons.IH)
  finally show ?case using b rp dr by auto
qed

lemma pointRecord_error:
  "pointRecord G p airspaces = Inl e \<Longrightarrow> e = TooMuchAirspaces p"
  by (auto simp: pointRecord_eq split: sum.splits)

lemma checkEmptiness_fatal:
  assumes "levels * sizeof_level \<le> length output"
    and "\<exists>q \<in> set ps. \<exists>e. pointRecord G q airspaces = Inl e"
  shows "\<exists>q \<in> set ps. checkEmptiness G airspaces ps output isEmpty = Inl (TooMuchAirspaces q)"
  using assms
proof (induction ps arbitrary: "output" isEmpty)
  case Nil
  then show ?case by simp
next
  case (Cons p ps)
  show ?case
  proof (cases "pointRecord G p airspaces")
    case (Inl e)
    then have "pointRecord G p airspaces = Inl (TooMuchAirspaces p)"
      using pointRecord_error by blast
    then have "dumpPoint G output 0 p airspaces = Inl (TooMuchAirspaces p)"
      using Cons.prems(1) by (simp add: dumpPoint_at_0)
    then show ?thesis by simp
  next
    case (Inr rp)
    have lr: "length rp = levels * sizeof_level" using Inr by (rule pointRecord_length)
    let ?o1 = "rp @ drop (levels * sizeof_level) output"
    have d: "dumpPoint G output 0 p airspaces = Inr ?o1"
      using Cons.prems(1) Inr by (simp add: dumpPoint_at_0)
    have len1: "levels * sizeof_level \<le> length ?o1" using lr by simp
    have rest: "\<exists>q \<in> set ps. \<exists>e. pointRecord G q airspaces = Inl e"
      using Cons.prems(2) Inr by auto
    let ?b = "if list_ex (\<lambda>byte. byte \<noteq> 0) (take (levels * sizeof_level) ?o1)
              then False else isEmpty"
    from Cons.IH [OF len1 rest, of ?b] obtain q where
      "q \<in> set ps" "checkEmptiness G airspaces ps ?o1 ?b = Inl (TooMuchAirspaces q)"
      by blast
    then show ?thesis using d by auto
  qed
qed

lemma checkEmptiness_sample_empty:
  assumes zero: "\<forall>p \<in> set ps.
                   pointRecord G p airspaces = Inr (replicate (levels * sizeof_level) 0)"
  shows "checkEmptiness G airspaces ps (replicate (n * n * levels * sizeof_level) 0) True
         = (if 0 < n \<or> ps = [] then Inr (replicate (n * n * levels * sizeof_level) 0, True)
            else Inl IndexError)"
proof (cases "0 < n")
  case True
  then have "1 \<le> n * n" by (simp add: Suc_leI)
  then have "1 * (levels * sizeof_level) \<le> (n * n) * (levels * sizeof_level)"
    by (rule mult_le_mono1)
  then have room: "levels * sizeof_level \<le> n * n * levels * sizeof_level"
    by (simp add: mult.assoc)
  show ?thesis
    using True checkEmptiness_zero [OF room zero] by simp
next
  case False
  show ?thesis
  proof (cases ps)
    case Nil
    then show ?thesis by simp
  next
    case (Cons q qs)
    then have "pointRecord G q airspaces = Inr (replicate (levels * sizeof_level) 0)"
      using zero by simp
    then obtain cA where
      "deleteFarAway q (eliminateSameVector (eliminateIdentical
          (heightBands (nearbyVectors G q airspaces)))) = Inr cA"
      by (auto simp: pointRecord_eq split: sum.splits)
    then have "dumpPoint G [] 0 q airspaces = Inl IndexError"
      unfolding dumpPoint_def
      by (intro dumpVectors_short) (auto simp: levels_def sizeof_level_def)
    then show ?thesis using Cons False by simp
  qed
qed

lemma dump_sample_empty:
  assumes zero: "\<forall>p \<in> set (gridPoints N lon lat 10).
                   pointRecord G p airspaces = Inr (replicate (levels * sizeof_level) 0)"
  shows "snd (dump N force wantedResolution G lon lat airspaces draw fs) = fs
         \<and> (draw \<or> 0 < wantedResolution
              \<longrightarrow> fst (dump N force wantedResolution G lon lat airspaces draw fs) = Returned)"
  by (cases draw; cases "0 < wantedResolution"; cases "gridPoints N lon lat 10 = []")
     (simp_all add: dump_def Let_def checkEmptiness_sample_empty [OF zero]
        checkEmptiness_sample_empty [OF zero, of 10, simplified]
        checkEmptiness_sample_empty [OF zero, of 0, simplified] finish_zero failed_def
        finish_zero [of _ _ 0, simplified])

lemma size_room:
  "0 < n \<Longrightarrow> levels * sizeof_level \<le> n * n * levels * sizeof_level"
proof -
  assume "0 < n"
  then have "1 \<le> n * n" by (simp add: Suc_leI)
  then have "1 * (levels * sizeof_level) \<le> (n * n) * (levels * sizeof_level)"
    by (rule mult_le_mono1)
  then show ?thesis by (simp add: mult.assoc)
qed

lemma dump_decided_by_sample:
  assumes run: "\<not> (tileFilename lon lat \<in> dom fs \<and> \<not> force)"
    and pos: "0 < (if draw then 10 else wantedResolution)"
    and last: "gridPoints N lon lat 10 = qs @ [q]"
    and ok: "\<forall>p \<in> set (gridPoints N lon lat 10). \<exists>r. pointRecord G p airspaces = Inr r"
    and r: "pointRecord G q airspaces = Inr r"
  shows "dump N force wantedResolution G lon lat airspaces draw fs =
     (if \<forall>p \<in> set (gridPoints N lon lat 10).
           pointRecord G p airspaces = Inr (replicate (levels * sizeof_level) 0)
      then (Returned, fs)
      else (case raster N G airspaces lon lat (if draw then 10 else wantedResolution)
                   (gridPoints N lon lat (if draw then 10 else wantedResolution))
                   (r @ replicate ((if draw then 10 else wantedResolution)
                                   * (if draw then 10 else wantedResolution)
                                   * levels * sizeof_level - levels * sizeof_level) 0) of
              Inl e \<Rightarrow> failed e (fs(tileFilename lon lat := None))
                         (fs(tileFilename lon lat \<mapsto> []))
            | Inr output' \<Rightarrow> finish (tileFilename lon lat) True output'
                               (fs(tileFilename lon lat \<mapsto> []))))"
proof -
  define n where "n = (if draw then 10 else wantedResolution)"
  have n: "0 < n" using pos by (simp add: n_def)
  have room: "levels * sizeof_level \<le> length (replicate (n * n * levels * sizeof_level) (0 :: byte))"
    using size_room [OF n] by simp
  have ok': "\<forall>p \<in> set (qs @ [q]). \<exists>r. pointRecord G p airspaces = Inr r"
    using ok last by simp
  have c: "checkEmptiness G airspaces (gridPoints N lon lat 10)
             (replicate (n * n * levels * sizeof_level) 0) True
           = Inr (r @ replicate (n * n * levels * sizeof_level - levels * sizeof_level) 0,
                  \<forall>p \<in> set (gridPoints N lon lat 10).
                     pointRecord G p airspaces = Inr (replicate (levels * sizeof_level) 0))"
    using checkEmptiness_last [OF room ok' r, of True] last by simp
  have n0: "n \<noteq> 0" using n by simp
  show ?thesis
  proof (cases "\<forall>p \<in> set (gridPoints N lon lat 10).
                  pointRecord G p airspaces = Inr (replicate (levels * sizeof_level) 0)")
    case True
    then have "snd (dump N force wantedResolution G lon lat airspaces draw fs) = fs"
      "fst (dump N force wantedResolution G lon lat airspaces draw fs) = Returned"
      using dump_sample_empty [of N lon lat G airspaces force wantedResolution draw fs] pos
      by (auto split: if_splits)
    then have "dump N force wantedResolution G lon lat airspaces draw fs = (Returned, fs)"
      by (simp add: prod_eq_iff)
    with True show ?thesis by simp
  next
    case False
    have "dump N force wantedResolution G lon lat airspaces draw fs =
        (case raster N G airspaces lon lat n (gridPoints N lon lat n)
                 (r @ replicate (n * n * levels * sizeof_level - levels * sizeof_level) 0) of
           Inl e \<Rightarrow> failed e (fs(tileFilename lon lat := None))
                      (fs(tileFilename lon lat \<mapsto> []))
         | Inr output' \<Rightarrow> finish (tileFilename lon lat) True output'
                            (fs(tileFilename lon lat \<mapsto> [])))"
      unfolding dump_def Let_def n_def [symmetric]
      using run c False n0 by auto
    then show ?thesis by (simp only: n_def if_not_P [OF False])
  qed
qed

lemma dump_fatal_sample:
  assumes run: "\<not> (tileFilename lon lat \<in> dom fs \<and> \<not> force)"
    and pos: "0 < (if draw then 10 else wantedResolution)"
    and fatal: "\<exists>q \<in> set (gridPoints N lon lat 10). \<exists>e. pointRecord G q airspaces = Inl e"
  shows "dump N force wantedResolution G lon lat airspaces draw fs = (Exited 1, fs)"
proof -
  define n where "n = (if draw then 10 else wantedResolution)"
  have n: "0 < n" using pos by (simp add: n_def)
  have room: "levels * sizeof_level \<le> length (replicate (n * n * levels * sizeof_level) (0 :: byte))"
    using size_room [OF n] by simp
  from checkEmptiness_fatal [OF room fatal, of True] obtain q where
    "checkEmptiness G airspaces (gridPoints N lon lat 10)
       (replicate (n * n * levels * sizeof_level) 0) True = Inl (TooMuchAirspaces q)"
    by blast
  then show ?thesis
    unfolding dump_def Let_def n_def [symmetric]
    using run by (auto simp: failed_def)
qed

lemma dump_fatal_first_point:
  assumes run: "\<not> (tileFilename lon lat \<in> dom fs \<and> \<not> force)"
    and first: "gridPoints N lon lat 10 = p # ps"
    and fatal: "deleteFarAway p
                  (eliminateSameVector (eliminateIdentical (heightBands
                     (nearbyVectors G p airspaces)))) = Inl err"
  shows "dump N force wantedResolution G lon lat airspaces draw fs = (Exited 1, fs)"
proof -
  have e: "err = TooMuchAirspaces p" using fatal by (rule deleteFarAway_error)
  have "\<And>output. dumpPoint G output 0 p airspaces = Inl (TooMuchAirspaces p)"
    using fatal e by (simp add: dumpPoint_def dumpVectors_def)
  then have "\<And>output. checkEmptiness G airspaces (gridPoints N lon lat 10) output True
               = Inl (TooMuchAirspaces p)"
    using first by simp
  then show ?thesis using run by (auto simp: dump_def Let_def failed_def)
qed

lemma pyIndex_nat: "pyIndex len (int k) = (if k < len then Some k else None)"
  by (simp add: pyIndex_def)

lemma writeBytesAt_nat:
  "writeBytesAt output (int k) bytes =
     (case writeBytes output k bytes of
        Inl e \<Rightarrow> Inl e
      | Inr (output', k') \<Rightarrow> Inr (output', int k'))"
proof (induction bytes arbitrary: "output" k)
  case Nil
  show ?case by simp
next
  case (Cons b bytes)
  have "writeBytesAt (output[k := b]) (int k + 1) bytes
        = writeBytesAt (output[k := b]) (int (Suc k)) bytes"
    by (simp add: add.commute)
  also have "\<dots> = (case writeBytes (output[k := b]) (Suc k) bytes of
                      Inl e \<Rightarrow> Inl e
                    | Inr (output', k') \<Rightarrow> Inr (output', int k'))"
    by (rule Cons)
  finally show ?case by (simp add: pyIndex_nat)
qed

lemma writeLevelsAt_nat:
  "writeLevelsAt output (int k) bss =
     (case writeLevels output k bss of
        Inl e \<Rightarrow> Inl e
      | Inr (output', k') \<Rightarrow> Inr (output', int k'))"
proof (induction bss arbitrary: "output" k)
  case Nil
  show ?case by simp
next
  case (Cons bs bss)
  show ?case
    by (cases "writeBytes output k bs") (auto simp: writeBytesAt_nat Cons)
qed

lemma dumpVectorsAt_nat:
  "dumpVectorsAt output (int k) p avs = dumpVectors output k p avs"
  by (auto simp: dumpVectorsAt_def dumpVectors_def writeLevelsAt_nat split: sum.splits)

lemma dumpPointAt_nat:
  "dumpPointAt G output (int k) p airspaces = dumpPoint G output k p airspaces"
  by (simp add: dumpPointAt_def dumpPoint_def dumpVectorsAt_nat)

section \<open>Examples of tiles\<close>

text \<open>
  An arithmetic for the examples: exact, where the code rounds to doubles, and with the
  floor for \<open>int\<close>, which is applied to values that are not negative there.
\<close>

definition exactNumerics :: numerics where
  "exactNumerics =
     \<lparr> arange_unit = (\<lambda>start n. map (\<lambda>i. real_of_int start + real i * (1 / real n)) [0..<n]),
       rasterRow = (\<lambda>numPoints lat lat_i.
         \<lfloor>real numPoints - 1 - (lat_i - real_of_int lat) * real numPoints\<rfloor>),
       rasterColumn = (\<lambda>numPoints lon lon_i. \<lfloor>(lon_i - real_of_int lon) * real numPoints\<rfloor>) \<rparr>"

text \<open>
  An airspace so small that only the point \<open>spot\<close> is near it: it contains \<open>spot\<close> and
  is too far from every other point.
\<close>

definition tinyAirspace :: Airspace where
  "tinyAirspace = exampleAirspace 0 1000 2000"

definition spotGeometry :: "point \<Rightarrow> geometry" where
  "spotGeometry spot =
     \<lparr> getDistanceToCenter = (\<lambda>airspace p. 0),
       getAirspaceVector = (\<lambda>airspace p.
         \<lparr> vref = aref airspace, airspace = airspace,
           distance = (if p = spot then 0 else 20000000),
           angle = 0, inside = (p = spot) \<rparr>),
       isTooFar = (\<lambda>av. distance av / (100 * 1000) > 100) \<rparr>"

text \<open>A geometry in which every airspace contains every point.\<close>

definition stackedGeometry :: geometry where
  "stackedGeometry =
     \<lparr> getDistanceToCenter = (\<lambda>airspace p. 0),
       getAirspaceVector = (\<lambda>airspace p.
         \<lparr> vref = aref airspace, airspace = airspace, distance = 0,
           angle = (if even (aref airspace) then 0 else 90), inside = True \<rparr>),
       isTooFar = (\<lambda>av. distance av / (100 * 1000) > 100) \<rparr>"

lemma set_gridPoints_exact:
  "set (gridPoints exactNumerics lon lat n) =
     {(real_of_int lon + real j * (1 / real n), real_of_int lat + real i * (1 / real n)) | i j.
        i < n \<and> j < n}"
  by (auto simp: gridPoints_def exactNumerics_def)

lemma gridPoints_exact_first:
  "gridPoints exactNumerics lon lat 10
   = (real_of_int lon, real_of_int lat) # tl (gridPoints exactNumerics lon lat 10)"
  by (simp add: gridPoints_def exactNumerics_def upt_conv_Cons)

lemma gridPoints_exact_last:
  "gridPoints exactNumerics lon lat 10
   = butlast (gridPoints exactNumerics lon lat 10)
     @ [(real_of_int lon + 9 / 10, real_of_int lat + 9 / 10)]"
proof -
  have "[0..<Suc 9] = [0..<9] @ [9]" by (rule upt_Suc_append) simp
  then have u: "[0..<10] = [0..<9] @ [9 :: nat]" by simp
  have "\<exists>qs. gridPoints exactNumerics lon lat 10
          = qs @ [(real_of_int lon + 9 / 10, real_of_int lat + 9 / 10)]"
    by (simp add: gridPoints_def exactNumerics_def u)
  then obtain qs where "gridPoints exactNumerics lon lat 10
          = qs @ [(real_of_int lon + 9 / 10, real_of_int lat + 9 / 10)]" by blast
  then show ?thesis by simp
qed

lemma pointRecord_no_vectors:
  assumes "nearbyVectors G p airspaces = []"
  shows "pointRecord G p airspaces = Inr (replicate (levels * sizeof_level) 0)"
proof -
  have "deleteFarAway p (eliminateSameVector (eliminateIdentical (heightBands []))) = Inr []"
    by (simp add: heightBands_def findLowestHeightInAirspaces_def eliminateIdentical_def
          eliminateSameVector_def sortedItems_def deleteFarAway.simps)
  moreover have "levelBytes [] = replicate (levels * sizeof_level) 0"
    by (simp add: levelBytes_def sortedItems_def)
  ultimately show ?thesis using assms by (simp add: pointRecord_eq)
qed

lemma spot_other:
  "p \<noteq> spot \<Longrightarrow>
   pointRecord (spotGeometry spot) p [tinyAirspace] = Inr (replicate (levels * sizeof_level) 0)"
  by (rule pointRecord_no_vectors) (simp add: nearbyVectors_def spotGeometry_def)

lemma spot_record:
  "pointRecord (spotGeometry spot) spot [tinyAirspace]
   = Inr [4, 8, 128, 0, 0, 0, 0, 0, 0, 0, 0, 0, 0, 0, 0, 0, 0, 0, 0, 0]"
proof -
  have n: "nearbyVectors (spotGeometry spot) spot [tinyAirspace]
           = [exampleVector 0 1000 2000 0 0 True]"
    by (simp add: nearbyVectors_def spotGeometry_def tinyAirspace_def exampleVector_def
          exampleAirspace_def)
  have b: "eliminateSameVector (eliminateIdentical (heightBands [exampleVector 0 1000 2000 0 0 True]))
           = [((1000, False), exampleVector 0 1000 2000 0 0 True)]"
    by (simp add: sweep_eval eliminateIdentical_def sortedItems_def eliminateSameVector_def
          levels_def)
  have l: "levelBytes [((1000, False), exampleVector 0 1000 2000 0 0 True)]
           = [4, 8, 128, 0, 0, 0, 0, 0, 0, 0, 0, 0, 0, 0, 0, 0, 0, 0, 0, 0]"
    by (simp add: levelBytes_def sortedItems_def getBytes_def altitudeByte_def getAngleAsByte_def
          getDistanceAsByte_def clamp_def levels_def sizeof_level_def exampleVector_def
          exampleAirspace_def eval_nat_numeral)
  show ?thesis
    by (simp add: pointRecord_eq n b deleteFarAway.simps levels_def l)
qed

lemma tiny_not_sampled: "(181 / 20, 48) \<notin> set (gridPoints exactNumerics 9 48 10)"
proof
  assume "(181 / 20, 48) \<in> set (gridPoints exactNumerics 9 48 10)"
  then obtain j :: nat where "(181 / 20 :: real) = real_of_int 9 + real j * (1 / real 10)"
    by (auto simp: set_gridPoints_exact)
  then have "real (2 * j) = real 1" by simp
  then have "2 * j = 1" by (simp only: of_nat_eq_iff)
  then show False by presburger
qed

lemma tiny_in_raster: "(181 / 20, 48) \<in> set (gridPoints exactNumerics 9 48 20)"
proof -
  have "(181 / 20 :: real, 48 :: real)
        = (real_of_int 9 + real (1 :: nat) * (1 / real 20), real_of_int 48 + real (0 :: nat) * (1 / real 20))"
    by simp
  moreover have "(1 :: nat) < 20" "(0 :: nat) < 20" by simp_all
  ultimately show ?thesis unfolding set_gridPoints_exact by blast
qed

lemma tiny_sample_zero:
  "\<forall>p \<in> set (gridPoints exactNumerics 9 48 10).
     pointRecord (spotGeometry (181 / 20, 48)) p [tinyAirspace]
       = Inr (replicate (levels * sizeof_level) 0)"
  using tiny_not_sampled by (auto intro!: spot_other)

lemma corner_sample_ok:
  "\<forall>p \<in> set (gridPoints exactNumerics 9 48 10).
     \<exists>r. pointRecord (spotGeometry (9, 48)) p [tinyAirspace] = Inr r"
proof
  fix p
  show "\<exists>r. pointRecord (spotGeometry (9, 48)) p [tinyAirspace] = Inr r"
    by (cases "p = (9, 48)") (auto simp: spot_record spot_other)
qed

lemma corner_sampled: "(9, 48) \<in> set (gridPoints exactNumerics 9 48 10)"
  by (subst gridPoints_exact_first) simp

lemma corner_raster:
  "raster exactNumerics (spotGeometry (9, 48)) [tinyAirspace] 9 48 1
     (gridPoints exactNumerics 9 48 1) (replicate 20 0)
   = Inr [4, 8, 128, 0, 0, 0, 0, 0, 0, 0, 0, 0, 0, 0, 0, 0, 0, 0, 0, 0]"
proof -
  have g: "gridPoints exactNumerics 9 48 1 = [(9, 48)]"
    by (simp add: gridPoints_def exactNumerics_def)
  have d: "dumpPointAt (spotGeometry (9, 48)) (replicate 20 0) (int 0) (9, 48) [tinyAirspace]
           = Inr [4, 8, 128, 0, 0, 0, 0, 0, 0, 0, 0, 0, 0, 0, 0, 0, 0, 0, 0, 0]"
    by (simp only: dumpPointAt_nat)
       (simp add: dumpPoint_at_0 spot_record levels_def sizeof_level_def)
  have off: "(rasterRow exactNumerics 1 48 48 * int 1 + rasterColumn exactNumerics 1 9 9)
             * int (levels * sizeof_level) = int 0"
    by (simp add: exactNumerics_def)
  show ?thesis
    unfolding g raster.simps Let_def off d by simp
qed

lemma stacked_vectors:
  "nearbyVectors stackedGeometry p (map airspace sixInsideVectors) = sixInsideVectors"
  by (simp add: nearbyVectors_def stackedGeometry_def sixInsideVectors_def sixInside_def
        exampleVector_def exampleAirspace_def)

section \<open>The claims about the tile\<close>

text \<open>
  Claim C9. If the file of the tile exists and \<open>force\<close> is not set, \<open>dump\<close> returns
  with the files as they were, whatever the geometry, the airspaces and the arithmetic
  are: nothing is computed and nothing is written.
\<close>

theorem existing_file_is_skipped:
  assumes "tileFilename lon lat \<in> dom fs" and "\<not> force"
  shows "dump N force wantedResolution G lon lat airspaces draw fs = (Returned, fs)"
  using assms by (simp add: dump_def)

theorem existing_file_is_skipped_witness:
  "dump exactNumerics False 300 (spotGeometry (181 / 20, 48)) 9 48 [tinyAirspace] False
     [''N48E009.air'' \<mapsto> [1, 2, 3]]
   = (Returned, [''N48E009.air'' \<mapsto> [1, 2, 3]])"
  using existing_file_is_skipped
    [of 9 48 "[''N48E009.air'' \<mapsto> [1, 2, 3]]" False exactNumerics 300
        "spotGeometry (181 / 20, 48)" "[tinyAirspace]" False]
  by (simp add: tileFilename_def format_d_def digits.simps numeral_2_eq_2)

text \<open>
  Claim C10. The points of the emptiness check are those of
  \<open>numpy.arange(lat, lat + 1, 1/10)\<close> and \<open>numpy.arange(lon, lon + 1, 1/10)\<close>, whatever
  the resolution of the raster is: 100 points when each has 10 values. The check dumps
  each of them at offset 0 and leaves the rest of the buffer as it was; its answer is
  whether all their records are zero. This alone decides what \<open>dump\<close> does, for a file
  that is not skipped and a positive number of points per degree: if every sampled record
  is zero, \<open>dump\<close> returns and the files are as they were, whatever the records of the
  other points of the raster would be; if a sampled record is not zero, the file is
  opened and the raster is computed, from the buffer in which the record of the last
  sampled point stands at offset 0; if a sampled point is fatal, \<open>dump\<close> exits with
  status 1 and the files are as they were.
\<close>

theorem emptiness_check_samples_ten_by_ten:
  "gridPoints N lon lat 10 =
     concat (map (\<lambda>lat_i. map (\<lambda>lon_i. (lon_i, lat_i)) (arange_unit N lon 10))
                 (arange_unit N lat 10))
   \<and> (length (arange_unit N lon 10) = 10 \<and> length (arange_unit N lat 10) = 10
        \<longrightarrow> length (gridPoints N lon lat 10) = 100)
   \<and> (levels * sizeof_level \<le> length output
        \<and> (\<forall>p \<in> set ps. \<exists>r. pointRecord G p airspaces = Inr r)
      \<longrightarrow> (\<exists>output'. checkEmptiness G airspaces ps output isEmpty
                = Inr (output',
                       isEmpty \<and> (\<forall>p \<in> set ps. pointRecord G p airspaces
                                     = Inr (replicate (levels * sizeof_level) 0)))
              \<and> length output' = length output
              \<and> drop (levels * sizeof_level) output' = drop (levels * sizeof_level) output))
   \<and> ((\<forall>p \<in> set (gridPoints N lon lat 10).
           pointRecord G p airspaces = Inr (replicate (levels * sizeof_level) 0))
      \<longrightarrow> snd (dump N force wantedResolution G lon lat airspaces draw fs) = fs
        \<and> (draw \<or> 0 < wantedResolution
             \<longrightarrow> fst (dump N force wantedResolution G lon lat airspaces draw fs) = Returned))
   \<and> (\<not> (tileFilename lon lat \<in> dom fs \<and> \<not> force)
        \<and> 0 < (if draw then 10 else wantedResolution)
        \<and> gridPoints N lon lat 10 = qs @ [q]
        \<and> (\<forall>p \<in> set (gridPoints N lon lat 10). \<exists>r. pointRecord G p airspaces = Inr r)
        \<and> pointRecord G q airspaces = Inr r
      \<longrightarrow> dump N force wantedResolution G lon lat airspaces draw fs =
           (if \<forall>p \<in> set (gridPoints N lon lat 10).
                 pointRecord G p airspaces = Inr (replicate (levels * sizeof_level) 0)
            then (Returned, fs)
            else (case raster N G airspaces lon lat (if draw then 10 else wantedResolution)
                         (gridPoints N lon lat (if draw then 10 else wantedResolution))
                         (r @ replicate ((if draw then 10 else wantedResolution)
                                         * (if draw then 10 else wantedResolution)
                                         * levels * sizeof_level - levels * sizeof_level) 0) of
                    Inl e \<Rightarrow> failed e (fs(tileFilename lon lat := None))
                               (fs(tileFilename lon lat \<mapsto> []))
                  | Inr output' \<Rightarrow> finish (tileFilename lon lat) True output'
                                     (fs(tileFilename lon lat \<mapsto> [])))))
   \<and> (\<not> (tileFilename lon lat \<in> dom fs \<and> \<not> force)
        \<and> 0 < (if draw then 10 else wantedResolution)
        \<and> (\<exists>q \<in> set (gridPoints N lon lat 10). \<exists>e. pointRecord G q airspaces = Inl e)
      \<longrightarrow> dump N force wantedResolution G lon lat airspaces draw fs = (Exited 1, fs))"
proof (intro conjI impI)
  show "gridPoints N lon lat 10 =
     concat (map (\<lambda>lat_i. map (\<lambda>lon_i. (lon_i, lat_i)) (arange_unit N lon 10))
                 (arange_unit N lat 10))"
    by (rule gridPoints_def)
next
  assume "length (arange_unit N lon 10) = 10 \<and> length (arange_unit N lat 10) = 10"
  then show "length (gridPoints N lon lat 10) = 100"
    by (simp add: length_gridPoints)
next
  assume "levels * sizeof_level \<le> length output
        \<and> (\<forall>p \<in> set ps. \<exists>r. pointRecord G p airspaces = Inr r)"
  then show "\<exists>output'. checkEmptiness G airspaces ps output isEmpty
                = Inr (output',
                       isEmpty \<and> (\<forall>p \<in> set ps. pointRecord G p airspaces
                                     = Inr (replicate (levels * sizeof_level) 0)))
              \<and> length output' = length output
              \<and> drop (levels * sizeof_level) output' = drop (levels * sizeof_level) output"
    using checkEmptiness_eq [of "output" ps G airspaces isEmpty] by blast
next
  assume z: "\<forall>p \<in> set (gridPoints N lon lat 10).
           pointRecord G p airspaces = Inr (replicate (levels * sizeof_level) 0)"
  from dump_sample_empty [OF z]
  show "snd (dump N force wantedResolution G lon lat airspaces draw fs) = fs"
    by (rule conjunct1)
  assume "draw \<or> 0 < wantedResolution"
  with dump_sample_empty [OF z, of force wantedResolution draw fs]
  show "fst (dump N force wantedResolution G lon lat airspaces draw fs) = Returned"
    by blast
next
  assume a: "\<not> (tileFilename lon lat \<in> dom fs \<and> \<not> force)
        \<and> 0 < (if draw then 10 else wantedResolution)
        \<and> gridPoints N lon lat 10 = qs @ [q]
        \<and> (\<forall>p \<in> set (gridPoints N lon lat 10). \<exists>r. pointRecord G p airspaces = Inr r)
        \<and> pointRecord G q airspaces = Inr r"
  show "dump N force wantedResolution G lon lat airspaces draw fs =
           (if \<forall>p \<in> set (gridPoints N lon lat 10).
                 pointRecord G p airspaces = Inr (replicate (levels * sizeof_level) 0)
            then (Returned, fs)
            else (case raster N G airspaces lon lat (if draw then 10 else wantedResolution)
                         (gridPoints N lon lat (if draw then 10 else wantedResolution))
                         (r @ replicate ((if draw then 10 else wantedResolution)
                                         * (if draw then 10 else wantedResolution)
                                         * levels * sizeof_level - levels * sizeof_level) 0) of
                    Inl e \<Rightarrow> failed e (fs(tileFilename lon lat := None))
                               (fs(tileFilename lon lat \<mapsto> []))
                  | Inr output' \<Rightarrow> finish (tileFilename lon lat) True output'
                                     (fs(tileFilename lon lat \<mapsto> []))))"
    by (rule dump_decided_by_sample) (use a in blast)+
next
  assume a: "\<not> (tileFilename lon lat \<in> dom fs \<and> \<not> force)
        \<and> 0 < (if draw then 10 else wantedResolution)
        \<and> (\<exists>q \<in> set (gridPoints N lon lat 10). \<exists>e. pointRecord G q airspaces = Inl e)"
  show "dump N force wantedResolution G lon lat airspaces draw fs = (Exited 1, fs)"
    by (rule dump_fatal_sample) (use a in blast)+
qed

lemma nonzero_record: "xs = replicate n (0 :: byte) \<Longrightarrow> \<forall>b \<in> set xs. b = 0"
  by auto

lemma spot_record_nonzero:
  "pointRecord (spotGeometry spot) spot [tinyAirspace] \<noteq> Inr (replicate n 0)"
proof
  assume "pointRecord (spotGeometry spot) spot [tinyAirspace] = Inr (replicate n 0)"
  then have "[4, 8, 128, 0, 0, 0, 0, 0, 0, 0, 0, 0, 0, 0, 0, 0, 0, 0, 0, 0] = replicate n (0 :: byte)"
    by (simp add: spot_record)
  from nonzero_record [OF this] show False by simp
qed

lemma tile_name: "tileFilename 9 48 = ''N48E009.air''"
  by (simp add: tileFilename_def format_d_def digits.simps numeral_2_eq_2)

lemma stacked_fatal:
  "deleteFarAway p (eliminateSameVector (eliminateIdentical (heightBands
      (nearbyVectors stackedGeometry p (map airspace sixInsideVectors)))))
   = Inl (TooMuchAirspaces p)"
  by (simp add: stacked_vectors sixInside_bands deleteFarAway_fatal_iff)
     (simp add: sixInside_def levels_def exampleVector_def exampleAirspace_def)

text \<open>
  Three tiles in exact arithmetic. At 20 points per degree, every sampled record is zero
  and a record of the raster is not: no file. At 1 point per degree, a sampled record is
  not zero: the raster is computed and the file written. With six stacked airspaces that
  contain every point, a sampled point is fatal: exit.
\<close>

theorem emptiness_check_samples_ten_by_ten_witness:
  "(181 / 20, 48) \<in> set (gridPoints exactNumerics 9 48 20)
   \<and> pointRecord (spotGeometry (181 / 20, 48)) (181 / 20, 48) [tinyAirspace]
       = Inr [4, 8, 128, 0, 0, 0, 0, 0, 0, 0, 0, 0, 0, 0, 0, 0, 0, 0, 0, 0]
   \<and> dump exactNumerics False 20 (spotGeometry (181 / 20, 48)) 9 48 [tinyAirspace] False Map.empty
       = (Returned, Map.empty)
   \<and> dump exactNumerics False 1 (spotGeometry (9, 48)) 9 48 [tinyAirspace] False Map.empty
       = (Returned, [''N48E009.air'' \<mapsto>
                       [4, 8, 128, 0, 0, 0, 0, 0, 0, 0, 0, 0, 0, 0, 0, 0, 0, 0, 0, 0]])
   \<and> dump exactNumerics False 300 stackedGeometry 9 48 (map airspace sixInsideVectors) False
        Map.empty
       = (Exited 1, Map.empty)"
proof -
  note t = emptiness_check_samples_ten_by_ten
    [where N = exactNumerics and lon = 9 and lat = 48 and force = False and draw = False
       and fs = Map.empty]
  have run: "\<not> (tileFilename 9 48 \<in> dom (Map.empty :: file_system) \<and> \<not> False)"
    by simp
  from t [where G = "spotGeometry (181 / 20, 48)" and airspaces = "[tinyAirspace]"
            and wantedResolution = 20 and qs = "[]" and q = "(0, 0)" and r = "[]",
          THEN conjunct2, THEN conjunct2, THEN conjunct2, THEN conjunct1]
    tiny_sample_zero
  have "snd (dump exactNumerics False 20 (spotGeometry (181 / 20, 48)) 9 48 [tinyAirspace]
               False Map.empty) = Map.empty
        \<and> fst (dump exactNumerics False 20 (spotGeometry (181 / 20, 48)) 9 48 [tinyAirspace]
               False Map.empty) = Returned"
    by simp
  then have w1: "dump exactNumerics False 20 (spotGeometry (181 / 20, 48)) 9 48 [tinyAirspace]
                   False Map.empty = (Returned, Map.empty)"
    by (simp add: prod_eq_iff)
  have notzero: "\<not> (\<forall>p \<in> set (gridPoints exactNumerics 9 48 10).
                  pointRecord (spotGeometry (9, 48)) p [tinyAirspace]
                    = Inr (replicate (levels * sizeof_level) 0))"
    using corner_sampled spot_record_nonzero [of "(9, 48)"] by blast
  have lastrec: "pointRecord (spotGeometry (9, 48)) (real_of_int 9 + 9 / 10, real_of_int 48 + 9 / 10)
                   [tinyAirspace] = Inr (replicate (levels * sizeof_level) 0)"
    by (rule spot_other) simp
  have buf: "replicate (levels * sizeof_level) (0 :: byte)
             @ replicate (1 * 1 * levels * sizeof_level - levels * sizeof_level) 0
             = replicate 20 0"
    by (simp add: levels_def sizeof_level_def)
  from t [where G = "spotGeometry (9, 48)" and airspaces = "[tinyAirspace]"
            and wantedResolution = 1
            and qs = "butlast (gridPoints exactNumerics 9 48 10)"
            and q = "(real_of_int 9 + 9 / 10, real_of_int 48 + 9 / 10)"
            and r = "replicate (levels * sizeof_level) 0",
          THEN conjunct2, THEN conjunct2, THEN conjunct2, THEN conjunct2, THEN conjunct1]
    run gridPoints_exact_last [of 9 48] corner_sample_ok lastrec
  have "dump exactNumerics False 1 (spotGeometry (9, 48)) 9 48 [tinyAirspace] False Map.empty
        = (case raster exactNumerics (spotGeometry (9, 48)) [tinyAirspace] 9 48
                  (if False then 10 else 1)
                  (gridPoints exactNumerics 9 48 (if False then 10 else 1))
                  (replicate (levels * sizeof_level) 0
                   @ replicate ((if False then 10 else 1) * (if False then 10 else 1)
                          * levels * sizeof_level - levels * sizeof_level) 0) of
             Inl e \<Rightarrow> failed e (Map.empty(tileFilename 9 48 := None))
                        (Map.empty(tileFilename 9 48 \<mapsto> []))
           | Inr output' \<Rightarrow> finish (tileFilename 9 48) True output'
                              (Map.empty(tileFilename 9 48 \<mapsto> [])))"
    by (simp only: if_not_P [OF notzero]) simp
  then have w2: "dump exactNumerics False 1 (spotGeometry (9, 48)) 9 48 [tinyAirspace] False
                   Map.empty
       = (Returned, [''N48E009.air'' \<mapsto>
                       [4, 8, 128, 0, 0, 0, 0, 0, 0, 0, 0, 0, 0, 0, 0, 0, 0, 0, 0, 0]])"
    by (simp only: buf if_False corner_raster sum.case) (simp add: finish_def tile_name)
  have "\<exists>q \<in> set (gridPoints exactNumerics 9 48 10).
          \<exists>e. pointRecord stackedGeometry q (map airspace sixInsideVectors) = Inl e"
    using corner_sampled by (auto simp: pointRecord_eq stacked_fatal)
  with t [where G = stackedGeometry and airspaces = "map airspace sixInsideVectors"
            and wantedResolution = 300 and qs = "[]" and q = "(0, 0)" and r = "[]",
          THEN conjunct2, THEN conjunct2, THEN conjunct2, THEN conjunct2, THEN conjunct2]
    run
  have w3: "dump exactNumerics False 300 stackedGeometry 9 48 (map airspace sixInsideVectors)
              False Map.empty = (Exited 1, Map.empty)"
    by simp
  from tiny_in_raster spot_record [of "(181 / 20, 48)"] w1 w2 w3 show ?thesis by simp
qed

text \<open>
  Claim C1. If more than \<open>levels\<close> entries are left and none has \<open>inside == false\<close>,
  the third pass ends with the error that carries the point, and so does \<open>dumpPoint\<close>;
  this happens exactly when more than \<open>levels\<close> entries have \<open>inside == true\<close>, and
  it is the only error of the pass. An iteration never deletes an entry with
  \<open>inside == true\<close>: the entries with \<open>inside == true\<close> are the same before and after
  an iteration, and before and after the whole pass. When it happens at the first sampled
  point of a tile, or at any sampled point of a tile with a positive number of points
  per degree, \<open>dump\<close> exits with status 1 and leaves the files as they were; in exact
  arithmetic the first sampled point is the corner (lon, lat) of the tile.
\<close>

theorem too_many_inside_is_fatal:
  "(length cA > levels \<and> (\<forall>e \<in> set cA. inside (snd e))
      \<longrightarrow> deleteFarAway p cA = Inl (TooMuchAirspaces p))
   \<and> ((deleteFarAway p cA = Inl (TooMuchAirspaces p))
        = (length (filter (\<lambda>e. inside (snd e)) cA) > levels))
   \<and> (deleteFarAway p cA = Inl err \<longrightarrow> err = TooMuchAirspaces p)
   \<and> (deleteFarest cA = Some cA2
        \<longrightarrow> filter (\<lambda>e. inside (snd e)) cA2 = filter (\<lambda>e. inside (snd e)) cA)
   \<and> (deleteFarAway p cA = Inr cA'
        \<longrightarrow> length cA' \<le> levels
          \<and> filter (\<lambda>e. inside (snd e)) cA' = filter (\<lambda>e. inside (snd e)) cA)
   \<and> (deleteFarAway p (eliminateSameVector (eliminateIdentical (heightBands avs))) = Inl err
        \<longrightarrow> dumpVectors output offset p avs = Inl err)
   \<and> (\<not> (tileFilename lon lat \<in> dom fs \<and> \<not> force)
        \<and> deleteFarAway (real_of_int lon, real_of_int lat)
             (eliminateSameVector (eliminateIdentical (heightBands
                (nearbyVectors G (real_of_int lon, real_of_int lat) airspaces)))) = Inl err
        \<longrightarrow> dump exactNumerics force wantedResolution G lon lat airspaces draw fs
            = (Exited 1, fs))
   \<and> (\<not> (tileFilename lon lat \<in> dom fs \<and> \<not> force)
        \<and> gridPoints N lon lat 10 = p0 # ps0
        \<and> deleteFarAway p0
             (eliminateSameVector (eliminateIdentical (heightBands
                (nearbyVectors G p0 airspaces)))) = Inl err
        \<longrightarrow> dump N force wantedResolution G lon lat airspaces draw fs = (Exited 1, fs))
   \<and> (\<not> (tileFilename lon lat \<in> dom fs \<and> \<not> force)
        \<and> 0 < (if draw then 10 else wantedResolution)
        \<and> q \<in> set (gridPoints N lon lat 10)
        \<and> deleteFarAway q
             (eliminateSameVector (eliminateIdentical (heightBands
                (nearbyVectors G q airspaces)))) = Inl err
        \<longrightarrow> dump N force wantedResolution G lon lat airspaces draw fs = (Exited 1, fs))"
proof (intro conjI impI)
  assume "length cA > levels \<and> (\<forall>e \<in> set cA. inside (snd e))"
  then have "length (filter (\<lambda>e. inside (snd e)) cA) > levels" by simp
  then show "deleteFarAway p cA = Inl (TooMuchAirspaces p)"
    by (simp add: deleteFarAway_fatal_iff)
next
  show "(deleteFarAway p cA = Inl (TooMuchAirspaces p))
        = (length (filter (\<lambda>e. inside (snd e)) cA) > levels)"
    by (rule deleteFarAway_fatal_iff)
next
  assume "deleteFarAway p cA = Inl err"
  then show "err = TooMuchAirspaces p" by (rule deleteFarAway_error)
next
  assume "deleteFarest cA = Some cA2"
  then show "filter (\<lambda>e. inside (snd e)) cA2 = filter (\<lambda>e. inside (snd e)) cA"
    by (rule deleteFarest_keeps_inside)
next
  assume r: "deleteFarAway p cA = Inr cA'"
  from deleteFarAway_result [OF r] show "length cA' \<le> levels" by (rule conjunct1)
  from deleteFarAway_result [OF r]
  show "filter (\<lambda>e. inside (snd e)) cA' = filter (\<lambda>e. inside (snd e)) cA"
    by (elim conjE)
next
  assume "deleteFarAway p (eliminateSameVector (eliminateIdentical (heightBands avs))) = Inl err"
  then show "dumpVectors output offset p avs = Inl err"
    by (simp add: dumpVectors_def)
next
  assume a: "\<not> (tileFilename lon lat \<in> dom fs \<and> \<not> force)
        \<and> deleteFarAway (real_of_int lon, real_of_int lat)
             (eliminateSameVector (eliminateIdentical (heightBands
                (nearbyVectors G (real_of_int lon, real_of_int lat) airspaces)))) = Inl err"
  show "dump exactNumerics force wantedResolution G lon lat airspaces draw fs = (Exited 1, fs)"
    using a dump_fatal_first_point [OF _ gridPoints_exact_first, of lon lat fs force G airspaces err]
    by blast
next
  assume a: "\<not> (tileFilename lon lat \<in> dom fs \<and> \<not> force)
        \<and> gridPoints N lon lat 10 = p0 # ps0
        \<and> deleteFarAway p0
             (eliminateSameVector (eliminateIdentical (heightBands
                (nearbyVectors G p0 airspaces)))) = Inl err"
  show "dump N force wantedResolution G lon lat airspaces draw fs = (Exited 1, fs)"
    by (rule dump_fatal_first_point) (use a in blast)+
next
  assume a: "\<not> (tileFilename lon lat \<in> dom fs \<and> \<not> force)
        \<and> 0 < (if draw then 10 else wantedResolution)
        \<and> q \<in> set (gridPoints N lon lat 10)
        \<and> deleteFarAway q
             (eliminateSameVector (eliminateIdentical (heightBands
                (nearbyVectors G q airspaces)))) = Inl err"
  then have "pointRecord G q airspaces = Inl (TooMuchAirspaces q)"
    by (simp add: pointRecord_eq)
  with a have "\<exists>q \<in> set (gridPoints N lon lat 10). \<exists>e. pointRecord G q airspaces = Inl e"
    by blast
  with a show "dump N force wantedResolution G lon lat airspaces draw fs = (Exited 1, fs)"
    by (intro dump_fatal_sample) blast+
qed

theorem too_many_inside_is_fatal_witness:
  "deleteFarAway (9, 48) sixInside = Inl (TooMuchAirspaces (9, 48))
   \<and> deleteFarAway (9, 48) (((6000, False), exampleVector 6 6000 7000 50 0 False) # sixInside)
       = Inl (TooMuchAirspaces (9, 48))
   \<and> dump exactNumerics False 300 stackedGeometry 9 48 (map airspace sixInsideVectors) False
        Map.empty
       = (Exited 1, Map.empty)"
proof -
  have f: "deleteFarAway (9, 48) sixInside = Inl (TooMuchAirspaces (9, 48))"
    using too_many_inside_is_fatal [of sixInside "(9, 48)", THEN conjunct1]
    by (simp add: sixInside_def levels_def exampleVector_def exampleAirspace_def)
  have g: "deleteFarAway (9, 48) (((6000, False), exampleVector 6 6000 7000 50 0 False) # sixInside)
       = Inl (TooMuchAirspaces (9, 48))"
    using too_many_inside_is_fatal
      [of "((6000, False), exampleVector 6 6000 7000 50 0 False) # sixInside" "(9, 48)",
       THEN conjunct2, THEN conjunct1]
    by (simp add: sixInside_def levels_def exampleVector_def exampleAirspace_def)
  have h: "dump exactNumerics False 300 stackedGeometry 9 48 (map airspace sixInsideVectors) False
             Map.empty = (Exited 1, Map.empty)"
    using too_many_inside_is_fatal
      [where lon = 9 and lat = 48 and fs = Map.empty and force = False
         and G = stackedGeometry and airspaces = "map airspace sixInsideVectors"
         and err = "TooMuchAirspaces (9, 48)" and wantedResolution = 300 and draw = False,
       THEN conjunct2, THEN conjunct2, THEN conjunct2, THEN conjunct2, THEN conjunct2,
       THEN conjunct2, THEN conjunct1]
    by (simp add: stacked_vectors sixInside_bands f)
  from f g h show ?thesis by simp
qed

end
